theory Spec2Isabelle
  imports Complex_Main "HOL-Library.Word" "HOL-Library.Monad_Syntax"
    "HOL-Library.Product_Lexorder"
begin

section \<open>Leaf ranges of the distributed neighbour search\<close>

text \<open>
  \<^verbatim>\<open>getLeafsRange\<close> (clustering/NeighborSearch_MPI.hpp) works on C++ \<^verbatim>\<open>int\<close>.
  The model uses mathematical integers with the truncating division and remainder of
  C++ written out; the partition theorem below bounds every value the function computes
  by \<open>n\<close>, so for an \<open>n\<close> that fits an \<^verbatim>\<open>int\<close> nothing overflows.
\<close>

definition c_div :: "int \<Rightarrow> int \<Rightarrow> int" where
  "c_div a b = sgn a * sgn b * (\<bar>a\<bar> div \<bar>b\<bar>)"

definition c_mod :: "int \<Rightarrow> int \<Rightarrow> int" where
  "c_mod a b = sgn a * (\<bar>a\<bar> mod \<bar>b\<bar>)"

definition getLeafsRange :: "int \<Rightarrow> int \<Rightarrow> int \<Rightarrow> int list" where
  "getLeafsRange n p rank =
     (let size = c_div n p;
          rem = c_mod n p;
          sub_len = (if rank < rem then size + 1 else size);
          sub_start = (if rank < rem then rank * size + rank else rank * size + rem)
      in [sub_start, sub_start + sub_len])"

definition range_begin :: "int \<Rightarrow> int \<Rightarrow> int \<Rightarrow> int" where
  "range_begin n p rank = getLeafsRange n p rank ! 0"

definition range_end :: "int \<Rightarrow> int \<Rightarrow> int \<Rightarrow> int" where
  "range_end n p rank = getLeafsRange n p rank ! 1"

section \<open>Dense matrices\<close>

text \<open>
  \<^verbatim>\<open>DenseMatrix<scalar_t>\<close> (dense/DenseMatrix.hpp, not among the sources) is used
  through \<^verbatim>\<open>rows()\<close>, \<^verbatim>\<open>cols()\<close> and the element access \<^verbatim>\<open>A(i,j)\<close>. A matrix is
  its two dimensions and its entries; the entry function is total, so an access outside
  the dimensions (undefined behaviour in C++) has no effect on the entries inside.
\<close>

record 'a DenseMatrix =
  nrows :: nat
  ncols :: nat
  entry :: "nat \<Rightarrow> nat \<Rightarrow> 'a"

definition set_entry :: "'a DenseMatrix \<Rightarrow> nat \<Rightarrow> nat \<Rightarrow> 'a \<Rightarrow> 'a DenseMatrix" where
  "set_entry M i j v = M\<lparr>entry := (entry M)(i := (entry M i)(j := v))\<rparr>"

definition add_entry :: "'a::plus DenseMatrix \<Rightarrow> nat \<Rightarrow> nat \<Rightarrow> 'a \<Rightarrow> 'a DenseMatrix" where
  "add_entry M i j v = set_entry M i j (entry M i j + v)"

text \<open>\<^verbatim>\<open>DenseM_t(m, n)\<close>: an \<open>m \<times> n\<close> matrix; \<^verbatim>\<open>clear()\<close> leaves a \<open>0 \<times> 0\<close> one.\<close>

definition DenseM :: "nat \<Rightarrow> nat \<Rightarrow> 'a::zero DenseMatrix" where
  "DenseM m n = \<lparr>nrows = m, ncols = n, entry = (\<lambda>_ _. 0)\<rparr>"

definition clear :: "'a::zero DenseMatrix \<Rightarrow> 'a DenseMatrix" where
  "clear M = DenseM 0 0"

text \<open>
  \<^verbatim>\<open>DenseMatrixWrapper(m, n, A, i, j)\<close> is a view of the \<open>m \<times> n\<close> block of \<open>A\<close> at
  \<open>(i, j)\<close>; writing through the view writes into \<open>A\<close>.
\<close>

definition view :: "nat \<Rightarrow> nat \<Rightarrow> 'a DenseMatrix \<Rightarrow> nat \<Rightarrow> nat \<Rightarrow> 'a DenseMatrix" where
  "view m n A i0 j0 = \<lparr>nrows = m, ncols = n, entry = (\<lambda>i j. entry A (i0 + i) (j0 + j))\<rparr>"

definition write_view :: "'a DenseMatrix \<Rightarrow> nat \<Rightarrow> nat \<Rightarrow> 'a DenseMatrix \<Rightarrow> 'a DenseMatrix" where
  "write_view A i0 j0 W =
     A\<lparr>entry := (\<lambda>i j. if i0 \<le> i \<and> i < i0 + nrows W \<and> j0 \<le> j \<and> j < j0 + ncols W
                        then entry W (i - i0) (j - j0) else entry A i j)\<rparr>"

text \<open>\<^verbatim>\<open>copy(B, A, i, j)\<close> copies \<open>B\<close> into \<open>A\<close> at position \<open>(i, j)\<close>.\<close>

definition copy :: "'a DenseMatrix \<Rightarrow> 'a DenseMatrix \<Rightarrow> nat \<Rightarrow> nat \<Rightarrow> 'a DenseMatrix" where
  "copy B A i0 j0 = write_view A i0 j0 B"

datatype Side = Side_L | Side_R
datatype UpLo = UpLo_U | UpLo_L
datatype Trans = Trans_N | Trans_T | Trans_C
datatype Diag = Diag_U | Diag_N

text \<open>
  \<^verbatim>\<open>gemm(ta, tb, alpha, A, B, beta, C)\<close> is the BLAS wrapper (dense/BLASLAPACKWrapper.hpp,
  not among the sources), with the BLAS meaning \<open>C := alpha op(A) op(B) + beta C\<close>. The
  first argument of the model is the conjugation of the scalar type, used by
  \<^verbatim>\<open>Trans::C\<close>.
\<close>

definition op_entry :: "('a \<Rightarrow> 'a) \<Rightarrow> Trans \<Rightarrow> 'a DenseMatrix \<Rightarrow> nat \<Rightarrow> nat \<Rightarrow> 'a" where
  "op_entry cj t A i j =
     (case t of Trans_N \<Rightarrow> entry A i j | Trans_T \<Rightarrow> entry A j i | Trans_C \<Rightarrow> cj (entry A j i))"

definition op_cols :: "Trans \<Rightarrow> 'a DenseMatrix \<Rightarrow> nat" where
  "op_cols t A = (case t of Trans_N \<Rightarrow> ncols A | Trans_T \<Rightarrow> nrows A | Trans_C \<Rightarrow> nrows A)"

definition gemm :: "('a \<Rightarrow> 'a) \<Rightarrow> Trans \<Rightarrow> Trans \<Rightarrow> 'a::comm_ring_1 \<Rightarrow> 'a DenseMatrix
    \<Rightarrow> 'a DenseMatrix \<Rightarrow> 'a \<Rightarrow> 'a DenseMatrix \<Rightarrow> 'a DenseMatrix" where
  "gemm cj ta tb alpha A B beta C =
     C\<lparr>entry := (\<lambda>i j. if i < nrows C \<and> j < ncols C
                        then alpha * (\<Sum>k < op_cols ta A. op_entry cj ta A i k * op_entry cj tb B k j)
                             + beta * entry C i j
                        else entry C i j)\<rparr>"

section \<open>Dense frontal matrices\<close>

text \<open>
  \<^verbatim>\<open>FrontalMatrixDense\<close> with the blocks \<open>F11, F12, F21, F22\<close>, the pivot vector and
  the two dimensions \<^verbatim>\<open>dim_sep()\<close> and \<^verbatim>\<open>dim_upd()\<close> of its base class.
\<close>

record 'a FrontalMatrixDense =
  dim_sep :: nat
  dim_upd :: nat
  F11 :: "'a DenseMatrix"
  F12 :: "'a DenseMatrix"
  F21 :: "'a DenseMatrix"
  F22 :: "'a DenseMatrix"
  piv :: "int list"

type_synonym size_t = "64 word"

text \<open>The four blocks of the parent that \<^verbatim>\<open>extend_add_to_dense\<close> receives by reference.\<close>

record 'a parent_blocks =
  paF11 :: "'a DenseMatrix"
  paF12 :: "'a DenseMatrix"
  paF21 :: "'a DenseMatrix"
  paF22 :: "'a DenseMatrix"

definition release_work_memory :: "'a::zero FrontalMatrixDense \<Rightarrow> 'a FrontalMatrixDense" where
  "release_work_memory f = f\<lparr>F22 := clear (F22 f)\<rparr>"

text \<open>
  \<^verbatim>\<open>extend_add_to_dense\<close>. The index list \<open>I\<close> and the count \<open>upd2sep\<close> are what
  \<^verbatim>\<open>upd_to_parent(p, upd2sep)\<close> returns; that function belongs to the base class
  \<^verbatim>\<open>FrontalMatrix\<close>, which is not among the sources, so both are parameters. The indices
  are \<^verbatim>\<open>std::size_t\<close> and their subtraction wraps around.
\<close>

definition extend_add_column :: "size_t list \<Rightarrow> nat \<Rightarrow> nat \<Rightarrow> size_t \<Rightarrow> 'a::plus DenseMatrix
    \<Rightarrow> nat \<Rightarrow> 'a parent_blocks \<Rightarrow> 'a parent_blocks" where
  \<comment> \<open>the body of the loop over the columns \<open>c\<close> of the child's \<open>F22\<close>\<close>
  "extend_add_column I upd2sep dupd pdsep F22c c pa =
     (let pc = I ! c in
      if pc < pdsep then
        fold (\<lambda>r pa. pa\<lparr>paF21 := add_entry (paF21 pa) (unat (I ! r - pdsep)) (unat pc)
                                      (entry F22c r c)\<rparr>)
          [upd2sep ..< dupd]
          (fold (\<lambda>r pa. pa\<lparr>paF11 := add_entry (paF11 pa) (unat (I ! r)) (unat pc)
                                         (entry F22c r c)\<rparr>)
             [0 ..< upd2sep] pa)
      else
        fold (\<lambda>r pa. pa\<lparr>paF22 := add_entry (paF22 pa) (unat (I ! r - pdsep))
                                      (unat (pc - pdsep)) (entry F22c r c)\<rparr>)
          [upd2sep ..< dupd]
          (fold (\<lambda>r pa. pa\<lparr>paF12 := add_entry (paF12 pa) (unat (I ! r))
                                         (unat (pc - pdsep)) (entry F22c r c)\<rparr>)
             [0 ..< upd2sep] pa))"

definition extend_add_to_dense :: "size_t list \<Rightarrow> nat \<Rightarrow> 'a::{plus,zero} FrontalMatrixDense
    \<Rightarrow> 'a parent_blocks \<Rightarrow> 'a parent_blocks \<times> 'a FrontalMatrixDense" where
  "extend_add_to_dense I upd2sep child pa =
     (let pdsep = (of_nat (nrows (paF11 pa)) :: size_t);
          dupd = dim_upd child;
          pa' = fold (extend_add_column I upd2sep dupd pdsep (F22 child)) [0 ..< dupd] pa
      in (pa', release_work_memory child))"

text \<open>
  The LAPACK and BLAS kernels that \<^verbatim>\<open>factor_phase2\<close> calls besides \<^verbatim>\<open>gemm\<close>:
  \<^verbatim>\<open>F11_.LU\<close> (in-place pivoted LU, returning the pivots), \<^verbatim>\<open>laswp\<close> (row interchanges)
  and \<^verbatim>\<open>trsm\<close> (triangular solve with the factor stored in its first matrix argument).
  They live in the external library; the model takes them as parameters.
\<close>

record 'a lapack =
  LU :: "'a DenseMatrix \<Rightarrow> 'a DenseMatrix \<times> int list"
  laswp :: "int list \<Rightarrow> bool \<Rightarrow> 'a DenseMatrix \<Rightarrow> 'a DenseMatrix"
  trsm :: "Side \<Rightarrow> UpLo \<Rightarrow> Trans \<Rightarrow> Diag \<Rightarrow> 'a \<Rightarrow> 'a DenseMatrix \<Rightarrow> 'a DenseMatrix \<Rightarrow> 'a DenseMatrix"

record SPOptions =
  replace_tiny_pivots :: bool

text \<open>
  The loop of \<^verbatim>\<open>factor_phase2\<close> that replaces tiny pivots. Scalars are complex numbers
  (the real scalar types are the complex numbers with imaginary part 0): \<^verbatim>\<open>std::abs\<close>
  is the modulus and \<^verbatim>\<open>std::real\<close> the real part.
\<close>

definition replace_tiny_pivots_loop :: "real \<Rightarrow> complex DenseMatrix \<Rightarrow> complex DenseMatrix" where
  "replace_tiny_pivots_loop thresh M =
     fold (\<lambda>i M. if cmod (entry M i i) < thresh
                  then set_entry M i i (of_real (if Re (entry M i i) < 0 then - thresh else thresh))
                  else M)
       [0 ..< nrows M] M"

text \<open>
  \<^verbatim>\<open>factor_phase2\<close>: \<open>eps\<close> is \<^verbatim>\<open>blas::lamch<real_t>('E')\<close> and \<open>Asize\<close> is
  \<^verbatim>\<open>A.size()\<close>, the dimension of the sparse matrix. The flop counters are left out.
\<close>

definition factor_phase2 :: "complex lapack \<Rightarrow> real \<Rightarrow> nat \<Rightarrow> SPOptions
    \<Rightarrow> complex FrontalMatrixDense \<Rightarrow> complex FrontalMatrixDense" where
  "factor_phase2 K eps Asize opts f =
     (if dim_sep f \<noteq> 0 then
        let (lu, pv) = LU K (F11 f);
            f1 = f\<lparr>F11 := lu, piv := pv\<rparr>;
            f2 = (if replace_tiny_pivots opts
                  then f1\<lparr>F11 := replace_tiny_pivots_loop (eps * real Asize) (F11 f1)\<rparr>
                  else f1)
        in if dim_upd f2 \<noteq> 0 then
             let F12a = laswp K (piv f2) True (F12 f2);
                 F12b = trsm K Side_L UpLo_L Trans_N Diag_U 1 (F11 f2) F12a;
                 F21b = trsm K Side_R UpLo_U Trans_N Diag_N 1 (F11 f2) (F21 f2);
                 F22b = gemm cnj Trans_N Trans_N (- 1) F21b F12b 1 (F22 f2)
             in f2\<lparr>F12 := F12b, F21 := F21b, F22 := F22b\<rparr>
           else f2
      else f)"

text \<open>
  The two triangles that the in-place LU stores in one matrix: the unit lower triangular
  \<open>L\<close> (below the diagonal, with ones on it) and the upper triangular \<open>U\<close>;
  \<open>LU_product T n\<close> is the product \<open>L U\<close> of the two triangles of \<open>T\<close>, of order \<open>n\<close>.
\<close>

definition unit_lower :: "'a::{zero,one} DenseMatrix \<Rightarrow> nat \<Rightarrow> nat \<Rightarrow> 'a" where
  "unit_lower M i k = (if k < i then entry M i k else if k = i then 1 else 0)"

definition upper :: "'a::zero DenseMatrix \<Rightarrow> nat \<Rightarrow> nat \<Rightarrow> 'a" where
  "upper M k j = (if k \<le> j then entry M k j else 0)"

definition LU_product :: "'a::comm_ring_1 DenseMatrix \<Rightarrow> nat \<Rightarrow> nat \<Rightarrow> nat \<Rightarrow> 'a" where
  "LU_product T n i j = (\<Sum>k < n. unit_lower T i k * upper T k j)"

text \<open>
  Modelled from the spec: the dense kernels are external collaborators (LU with partial
  pivoting, solve-triangular, multiply). \<open>lapack_contract K n perm\<close> states what the
  kernels \<open>K\<close> are documented to return on matrices of order \<open>n\<close>, whatever these hold:
  the in-place LU of a square \<open>M\<close> stores \<open>L\<close> and \<open>U\<close> with \<open>L U = P M\<close>, where \<open>perm\<close>
  reads the row interchange \<open>P\<close> off the pivot vector; \<^verbatim>\<open>laswp\<close> with that pivot vector
  applies \<open>P\<close> to the rows of its argument; the left solve with the unit lower triangle of
  \<open>T\<close> returns \<open>X\<close> with \<open>L X = B\<close>; and the right solve with the upper triangle of \<open>T\<close>
  returns \<open>X\<close> with \<open>X U = B\<close> when no diagonal entry of \<open>T\<close> is zero.
\<close>

definition lapack_contract :: "complex lapack \<Rightarrow> nat \<Rightarrow> (int list \<Rightarrow> nat \<Rightarrow> nat) \<Rightarrow> bool" where
  "lapack_contract K n perm =
     ((\<forall>M. nrows M = n \<and> ncols M = n \<longrightarrow>
           nrows (fst (LU K M)) = n \<and> ncols (fst (LU K M)) = n
         \<and> (\<forall>i < n. perm (snd (LU K M)) i < n)
         \<and> (\<forall>i < n. \<forall>j < n.
               LU_product (fst (LU K M)) n i j = entry M (perm (snd (LU K M)) i) j))
    \<and> (\<forall>M X. nrows M = n \<and> ncols M = n \<and> nrows X = n \<longrightarrow>
           nrows (laswp K (snd (LU K M)) True X) = n
         \<and> ncols (laswp K (snd (LU K M)) True X) = ncols X
         \<and> (\<forall>i < n. \<forall>j < ncols X.
               entry (laswp K (snd (LU K M)) True X) i j = entry X (perm (snd (LU K M)) i) j))
    \<and> (\<forall>T B. nrows T = n \<and> ncols T = n \<and> nrows B = n \<longrightarrow>
           (\<forall>i < n. \<forall>j < ncols B.
              (\<Sum>k < n. unit_lower T i k
                         * entry (trsm K Side_L UpLo_L Trans_N Diag_U 1 T B) k j) = entry B i j))
    \<and> (\<forall>T B. nrows T = n \<and> ncols T = n \<and> ncols B = n \<and> (\<forall>k < n. entry T k k \<noteq> 0) \<longrightarrow>
           ncols (trsm K Side_R UpLo_U Trans_N Diag_N 1 T B) = n
         \<and> (\<forall>i < nrows B. \<forall>j < n.
              (\<Sum>k < n. entry (trsm K Side_R UpLo_U Trans_N Diag_N 1 T B) i k * upper T k j)
                = entry B i j)))"

text \<open>
  The dimensions of the four blocks as \<^verbatim>\<open>factor_phase1\<close> allocates them:
  \<^verbatim>\<open>F11_ = DenseM_t(dsep, dsep)\<close>, \<^verbatim>\<open>F12_ = DenseM_t(dsep, dupd)\<close>,
  \<^verbatim>\<open>F21_ = DenseM_t(dupd, dsep)\<close> and \<^verbatim>\<open>F22_ = DenseM_t(dupd, dupd)\<close>.
\<close>

definition front_dims :: "'a FrontalMatrixDense \<Rightarrow> bool" where
  "front_dims f =
     (nrows (F11 f) = dim_sep f \<and> ncols (F11 f) = dim_sep f
      \<and> nrows (F12 f) = dim_sep f \<and> ncols (F12 f) = dim_upd f
      \<and> nrows (F21 f) = dim_upd f \<and> ncols (F21 f) = dim_sep f
      \<and> nrows (F22 f) = dim_upd f \<and> ncols (F22 f) = dim_upd f)"

text \<open>
  A front of order one with the separator entry \<open>1/16\<close>, and kernels that are exact on
  matrices of order one: the LU leaves the matrix as it is, without interchange, the
  left solve with the unit triangle leaves its argument and the right solve divides by
  the diagonal entry.
\<close>

definition example_lapack :: "complex lapack" where
  "example_lapack =
     \<lparr>LU = (\<lambda>M. (M, [1])), laswp = (\<lambda>p b X. X),
      trsm = (\<lambda>s u t d a A B. if s = Side_L then B
                else B\<lparr>entry := (\<lambda>i j. entry B i j / entry A j j)\<rparr>)\<rparr>"

definition example_front :: "complex FrontalMatrixDense" where
  "example_front =
     \<lparr>dim_sep = 1, dim_upd = 1,
      F11 = \<lparr>nrows = 1, ncols = 1, entry = (\<lambda>i j. 1 / 16)\<rparr>,
      F12 = \<lparr>nrows = 1, ncols = 1, entry = (\<lambda>i j. 4)\<rparr>,
      F21 = \<lparr>nrows = 1, ncols = 1, entry = (\<lambda>i j. 6)\<rparr>,
      F22 = \<lparr>nrows = 1, ncols = 1, entry = (\<lambda>i j. 20)\<rparr>, piv = []\<rparr>"

section \<open>The kernel matrix oracle\<close>

text \<open>
  \<^verbatim>\<open>Kernel<scalar_t>\<close>: \<open>kdata i\<close> is \<^verbatim>\<open>data_.ptr(0, i)\<close>, the \<open>i\<close>-th data point,
  \<open>kn\<close> is \<^verbatim>\<open>n()\<close>, the number of data points, and \<open>eval_kernel_function\<close> is the pure
  virtual kernel function supplied by the subclass.
\<close>

record ('p, 'a) Kernel =
  kdata :: "nat \<Rightarrow> 'p"
  kn :: nat
  lambda :: 'a
  eval_kernel_function :: "'p \<Rightarrow> 'p \<Rightarrow> 'a"

definition eval :: "('p, 'a::monoid_add) Kernel \<Rightarrow> nat \<Rightarrow> nat \<Rightarrow> 'a" where
  "eval K i j = eval_kernel_function K (kdata K i) (kdata K j) + (if i = j then lambda K else 0)"

datatype error = AssertionFailed

text \<open>
  \<^verbatim>\<open>Kernel::operator()\<close>: the outer loop runs over the columns \<open>j\<close>, the inner one over
  the rows \<open>i\<close>; a failing \<^verbatim>\<open>assert\<close> is the error value.
\<close>

fun fill_rows :: "('p, 'a::monoid_add) Kernel \<Rightarrow> nat list \<Rightarrow> nat list \<Rightarrow> nat \<Rightarrow> nat list
    \<Rightarrow> 'a DenseMatrix \<Rightarrow> error + 'a DenseMatrix" where
  "fill_rows K I J j [] B = Inr B"
| "fill_rows K I J j (i # is) B =
     (if I ! i < kn K \<and> J ! j < kn K
      then fill_rows K I J j is (set_entry B i j (eval K (I ! i) (J ! j)))
      else Inl AssertionFailed)"

fun fill_cols :: "('p, 'a::monoid_add) Kernel \<Rightarrow> nat list \<Rightarrow> nat list \<Rightarrow> nat list
    \<Rightarrow> 'a DenseMatrix \<Rightarrow> error + 'a DenseMatrix" where
  "fill_cols K I J [] B = Inr B"
| "fill_cols K I J (j # js) B =
     (case fill_rows K I J j [0 ..< length I] B of
        Inl e \<Rightarrow> Inl e
      | Inr B' \<Rightarrow> fill_cols K I J js B')"

definition Kernel_call :: "('p, 'a::monoid_add) Kernel \<Rightarrow> nat list \<Rightarrow> nat list
    \<Rightarrow> 'a DenseMatrix \<Rightarrow> error + 'a DenseMatrix" where
  "Kernel_call K I J B =
     (if nrows B = length I \<and> ncols B = length J
      then fill_cols K I J [0 ..< length J] B
      else Inl AssertionFailed)"

section \<open>HSS matrices\<close>

text \<open>
  Modelled from the spec: the per-node state of \<^verbatim>\<open>HSSMatrixBase\<close> (HSSMatrixBase.hpp is
  not among the sources) is one of UNTOUCHED, PARTIALLY_COMPRESSED and COMPRESSED, in
  this order; a node \<^verbatim>\<open>is_untouched\<close> when both its U-state and its V-state are
  UNTOUCHED and \<^verbatim>\<open>is_compressed\<close> when both are COMPRESSED.
\<close>

datatype State = UNTOUCHED | PARTIALLY_COMPRESSED | COMPRESSED

fun state_rank :: "State \<Rightarrow> nat" where
  "state_rank UNTOUCHED = 0"
| "state_rank PARTIALLY_COMPRESSED = 1"
| "state_rank COMPRESSED = 2"

text \<open>
  The data of one node of \<^verbatim>\<open>HSSMatrix<scalar_t>\<close>. \<open>hss_D\<close>, \<open>hss_B01\<close> and \<open>hss_B10\<close>
  are the members \<^verbatim>\<open>_D\<close>, \<^verbatim>\<open>_B01\<close> and \<^verbatim>\<open>_B10\<close>; \<open>hss_U\<close> and \<open>hss_V\<close> are the bases
  \<^verbatim>\<open>_U\<close> and \<^verbatim>\<open>_V\<close>, each kept as the dense matrix that \<^verbatim>\<open>dense()\<close> of
  \<^verbatim>\<open>HSSBasisID\<close> returns (HSSBasisID.hpp is not among the sources), so that \<^verbatim>\<open>_U.rows()\<close>
  and \<^verbatim>\<open>_U.cols()\<close> are its dimensions. The kernel compression works on real scalars
  (it sets \<open>V = U\<close> and \<open>B10\<close> to the plain transpose of \<open>B01\<close>), where the conjugate
  transpose \<^verbatim>\<open>Trans::C\<close> is the transpose.
\<close>

record HSSNode =
  rows :: nat
  cols :: nat
  U_state :: State
  V_state :: State
  U_rank :: nat
  V_rank :: nat
  U_rows :: nat
  V_rows :: nat
  hss_U :: "real DenseMatrix"
  hss_V :: "real DenseMatrix"
  hss_D :: "real DenseMatrix"
  hss_B01 :: "real DenseMatrix"
  hss_B10 :: "real DenseMatrix"

text \<open>A node has no children (a leaf) or two (\<^verbatim>\<open>_ch[0]\<close> and \<^verbatim>\<open>_ch[1]\<close>).\<close>

datatype HSSMatrix = Leaf HSSNode | Node HSSNode HSSMatrix HSSMatrix

fun node :: "HSSMatrix \<Rightarrow> HSSNode" where
  "node (Leaf d) = d"
| "node (Node d c0 c1) = d"

fun leaf :: "HSSMatrix \<Rightarrow> bool" where
  "leaf (Leaf d) = True"
| "leaf (Node d c0 c1) = False"

definition dims :: "HSSMatrix \<Rightarrow> nat \<times> nat" where
  "dims t = (rows (node t), cols (node t))"

definition is_untouched :: "HSSNode \<Rightarrow> bool" where
  "is_untouched d = (U_state d = UNTOUCHED \<and> V_state d = UNTOUCHED)"

definition is_compressed :: "HSSNode \<Rightarrow> bool" where
  "is_compressed d = (U_state d = COMPRESSED \<and> V_state d = COMPRESSED)"

text \<open>
  Modelled from the spec: the constructor \<^verbatim>\<open>HSSMatrixBase(m, n, active)\<close> makes an
  \<open>m \<times> n\<close> node that is untouched, with empty blocks.
\<close>

definition HSSMatrixBase :: "nat \<Rightarrow> nat \<Rightarrow> HSSNode" where
  "HSSMatrixBase m n =
     \<lparr>rows = m, cols = n, U_state = UNTOUCHED, V_state = UNTOUCHED,
      U_rank = 0, V_rank = 0, U_rows = 0, V_rows = 0,
      hss_U = DenseM 0 0, hss_V = DenseM 0 0, hss_D = DenseM 0 0,
      hss_B01 = DenseM 0 0, hss_B10 = DenseM 0 0\<rparr>"

text \<open>
  The options that the code reads: \<open>opt_p\<close> is \<^verbatim>\<open>opts.p()\<close> and \<open>opt_dd\<close> is
  \<^verbatim>\<open>opts.dd()\<close>; all integer options are C++ \<^verbatim>\<open>int\<close>.
\<close>

record HSSOptions =
  rel_tol :: real
  abs_tol :: real
  max_rank :: int
  leaf_size :: int
  opt_p :: int
  opt_dd :: int

text \<open>\<^verbatim>\<open>std::size_t(x)\<close> for an \<^verbatim>\<open>int\<close> \<open>x\<close>: the value modulo \<open>2\<^sup>6\<^sup>4\<close>.\<close>

definition size_t_of_int :: "int \<Rightarrow> nat" where
  "size_t_of_int x = nat (x mod 2 ^ 64)"

text \<open>
  The constructor \<^verbatim>\<open>HSSMatrix(m, n, opts, active)\<close> with \<open>active = true\<close>, as the public
  constructor calls it. The recursion need not end (it does not for a leaf size of 0),
  so the result is optional: \<open>None\<close> stands for a construction that does not return.
\<close>

partial_function (option) HSSMatrix_ctor :: "nat \<Rightarrow> nat \<Rightarrow> HSSOptions \<Rightarrow> HSSMatrix option" where
  "HSSMatrix_ctor m n opts =
     (if m > size_t_of_int (leaf_size opts) \<or> n > size_t_of_int (leaf_size opts) then
        do {
          c0 \<leftarrow> HSSMatrix_ctor (m div 2) (n div 2) opts;
          c1 \<leftarrow> HSSMatrix_ctor (m - m div 2) (n - n div 2) opts;
          Some (Node (HSSMatrixBase m n) c0 c1)
        }
      else Some (Leaf (HSSMatrixBase m n)))"

fun leaves :: "HSSMatrix \<Rightarrow> HSSNode list" where
  "leaves (Leaf d) = [d]"
| "leaves (Node d c0 c1) = leaves c0 @ leaves c1"

section \<open>Dense reconstruction of an HSS matrix\<close>

text \<open>
  \<^verbatim>\<open>dense_recursive(A, w, isroot, depth)\<close>. The work record \<^verbatim>\<open>WorkDense\<close> holds the
  offset of the node and the two matrices \<^verbatim>\<open>tmpU\<close> and \<^verbatim>\<open>tmpV\<close> that a node hands to
  its parent; the model takes the offset and returns \<open>A\<close> with \<^verbatim>\<open>tmpU\<close> and \<^verbatim>\<open>tmpV\<close>.
  The tasks of the source write to disjoint data and are run one after the other.
  Conjugation is the identity on the real scalars.
\<close>

fun dense_recursive :: "HSSMatrix \<Rightarrow> nat \<times> nat \<Rightarrow> bool \<Rightarrow> real DenseMatrix
    \<Rightarrow> real DenseMatrix \<times> real DenseMatrix \<times> real DenseMatrix" where
  "dense_recursive (Leaf d) off isroot A =
     (copy (hss_D d) A (fst off) (snd off), hss_U d, hss_V d)"
| "dense_recursive (Node d c0 c1) off isroot A =
     (let off0 = off;
          off1 = (fst off + fst (dims c0), snd off + snd (dims c0));
          (A1, tmpU0, tmpV0) = dense_recursive c0 off0 False A;
          (A2, tmpU1, tmpV1) = dense_recursive c1 off1 False A1;
          tmp01 = gemm id Trans_N Trans_C 1 (hss_B01 d) tmpV1 0
                    (DenseM (nrows (hss_B01 d)) (nrows tmpV1));
          A3 = write_view A2 (fst off0) (snd off1)
                 (gemm id Trans_N Trans_N 1 tmpU0 tmp01 0
                    (view (rows (node c0)) (cols (node c1)) A2 (fst off0) (snd off1)));
          tmp10 = gemm id Trans_N Trans_C 1 (hss_B10 d) tmpV0 0
                    (DenseM (nrows (hss_B10 d)) (nrows tmpV0));
          A4 = write_view A3 (fst off1) (snd off0)
                 (gemm id Trans_N Trans_N 1 tmpU1 tmp10 0
                    (view (rows (node c1)) (cols (node c0)) A3 (fst off1) (snd off0)));
          tmpU = (if \<not> isroot then
                    let T = DenseM (rows d) (U_rank d);
                        Udense = hss_U d;
                        T0 = write_view T 0 0
                               (gemm id Trans_N Trans_N 1 tmpU0
                                  (view (U_rank (node c0)) (ncols Udense) Udense 0 0) 0
                                  (view (rows (node c0)) (U_rank d) T 0 0))
                    in write_view T0 (rows (node c0)) 0
                         (gemm id Trans_N Trans_N 1 tmpU1
                            (view (U_rank (node c1)) (ncols Udense) Udense (U_rank (node c0)) 0) 0
                            (view (rows (node c1)) (U_rank d) T0 (rows (node c0)) 0))
                  else DenseM 0 0);
          tmpV = (if \<not> isroot then
                    let T = DenseM (cols d) (V_rank d);
                        Vdense = hss_V d;
                        T0 = write_view T 0 0
                               (gemm id Trans_N Trans_N 1 tmpV0
                                  (view (V_rank (node c0)) (ncols Vdense) Vdense 0 0) 0
                                  (view (cols (node c0)) (V_rank d) T 0 0))
                    in write_view T0 (cols (node c0)) 0
                         (gemm id Trans_N Trans_N 1 tmpV1
                            (view (V_rank (node c1)) (ncols Vdense) Vdense (V_rank (node c0)) 0) 0
                            (view (cols (node c1)) (V_rank d) T0 (cols (node c0)) 0))
                  else DenseM 0 0)
      in (A4, tmpU, tmpV))"

text \<open>
  \<^verbatim>\<open>dense()\<close>: the matrix \<open>A\<close> is allocated without being initialised; \<open>junk\<close> is its
  content before the recursion writes to it.
\<close>

definition dense :: "HSSMatrix \<Rightarrow> (nat \<Rightarrow> nat \<Rightarrow> real) \<Rightarrow> real DenseMatrix" where
  "dense t junk =
     fst (dense_recursive t (0, 0) True
            \<lparr>nrows = rows (node t), ncols = cols (node t), entry = junk\<rparr>)"

subsection \<open>The block form that the specification gives\<close>

text \<open>
  The generators aggregated over the children: the generator of a leaf is its basis,
  the generator of an internal node stacks the products of the children's generators
  with the two row blocks of the node's basis.
\<close>

fun U_agg :: "HSSMatrix \<Rightarrow> real DenseMatrix" where
  "U_agg (Leaf d) = hss_U d"
| "U_agg (Node d c0 c1) =
     \<lparr>nrows = rows d, ncols = U_rank d,
      entry = (\<lambda>i j.
        if i < rows (node c0) \<and> j < U_rank d
        then (\<Sum>k < ncols (U_agg c0). entry (U_agg c0) i k * entry (hss_U d) k j)
        else if rows (node c0) \<le> i \<and> i < rows (node c0) + rows (node c1) \<and> j < U_rank d
        then (\<Sum>k < ncols (U_agg c1).
                entry (U_agg c1) (i - rows (node c0)) k * entry (hss_U d) (U_rank (node c0) + k) j)
        else 0)\<rparr>"

fun V_agg :: "HSSMatrix \<Rightarrow> real DenseMatrix" where
  "V_agg (Leaf d) = hss_V d"
| "V_agg (Node d c0 c1) =
     \<lparr>nrows = cols d, ncols = V_rank d,
      entry = (\<lambda>i j.
        if i < cols (node c0) \<and> j < V_rank d
        then (\<Sum>k < ncols (V_agg c0). entry (V_agg c0) i k * entry (hss_V d) k j)
        else if cols (node c0) \<le> i \<and> i < cols (node c0) + cols (node c1) \<and> j < V_rank d
        then (\<Sum>k < ncols (V_agg c1).
                entry (V_agg c1) (i - cols (node c0)) k * entry (hss_V d) (V_rank (node c0) + k) j)
        else 0)\<rparr>"

text \<open>The entry \<open>(i, j)\<close> of the low-rank product \<open>U B V\<^sup>t\<close>.\<close>

definition UBVt :: "real DenseMatrix \<Rightarrow> real DenseMatrix \<Rightarrow> real DenseMatrix \<Rightarrow> nat \<Rightarrow> nat \<Rightarrow> real" where
  "UBVt Um Bm Vm i j = (\<Sum>k < ncols Um. \<Sum>l < ncols Bm. entry Um i k * entry Bm k l * entry Vm j l)"

text \<open>
  The block form \<open>[[D00, U0 B01 V1\<^sup>t], [U1 B10 V0\<^sup>t, D11]]\<close>, recursively, with \<open>D\<close> at the
  leaves.
\<close>

fun block_form :: "HSSMatrix \<Rightarrow> nat \<Rightarrow> nat \<Rightarrow> real" where
  "block_form (Leaf d) i j = entry (hss_D d) i j"
| "block_form (Node d c0 c1) i j =
     (if i < rows (node c0) then
        (if j < cols (node c0) then block_form c0 i j
         else UBVt (U_agg c0) (hss_B01 d) (V_agg c1) i (j - cols (node c0)))
      else
        (if j < cols (node c0)
         then UBVt (U_agg c1) (hss_B10 d) (V_agg c0) (i - rows (node c0)) j
         else block_form c1 (i - rows (node c0)) (j - cols (node c0))))"

text \<open>
  The shapes fit: a leaf's \<open>D\<close> has the size of the leaf; an internal node has the rows
  and the columns of its two children together, the generators of its children have as
  many rows as the child has rows (for \<open>U\<close>) and columns (for \<open>V\<close>), and its coupling
  blocks have the shapes of the products.
\<close>

fun shapes_fit :: "HSSMatrix \<Rightarrow> bool" where
  "shapes_fit (Leaf d) = (nrows (hss_D d) = rows d \<and> ncols (hss_D d) = cols d)"
| "shapes_fit (Node d c0 c1) =
     (rows d = rows (node c0) + rows (node c1) \<and> cols d = cols (node c0) + cols (node c1)
      \<and> nrows (U_agg c0) = rows (node c0) \<and> nrows (V_agg c0) = cols (node c0)
      \<and> nrows (U_agg c1) = rows (node c1) \<and> nrows (V_agg c1) = cols (node c1)
      \<and> nrows (hss_B01 d) = ncols (U_agg c0) \<and> ncols (hss_B01 d) = ncols (V_agg c1)
      \<and> nrows (hss_B10 d) = ncols (U_agg c1) \<and> ncols (hss_B10 d) = ncols (V_agg c0)
      \<and> shapes_fit c0 \<and> shapes_fit c1)"

section \<open>Compression of a kernel matrix from approximate nearest neighbours\<close>

text \<open>
  Modelled from the spec: the work record \<^verbatim>\<open>WorkCompressANN\<close> (HSSExtra.hpp is not among
  the sources), with the members that the sources use: the offset of the node in the
  matrix, its level (0 at the root), the local samples \<open>S\<close>, the selected local indices
  \<open>Jr, Jc\<close>, the selected global indices \<open>Ir, Ic\<close> and the pairs of neighbour index and
  score. A fresh record is at offset \<open>(0, 0)\<close> and level 0, and \<^verbatim>\<open>split(dims)\<close> makes
  the records of the two children: the first at the same offset, the second moved by
  the dimensions of the first child, both one level down. The records of the children
  are values of their own in the model.
\<close>

record WorkCompressANN =
  w_offset :: "nat \<times> nat"
  w_lvl :: int
  w_S :: "real DenseMatrix"
  w_Jr :: "nat list"
  w_Jc :: "nat list"
  w_Ir :: "nat list"
  w_Ic :: "nat list"
  w_ids_scores :: "(nat \<times> real) list"

definition new_work :: WorkCompressANN where
  "new_work = \<lparr>w_offset = (0, 0), w_lvl = 0, w_S = DenseM 0 0, w_Jr = [], w_Jc = [],
               w_Ir = [], w_Ic = [], w_ids_scores = []\<rparr>"

definition work_split :: "WorkCompressANN \<Rightarrow> nat \<times> nat \<Rightarrow> WorkCompressANN \<times> WorkCompressANN" where
  "work_split w dm =
     (new_work\<lparr>w_offset := w_offset w, w_lvl := w_lvl w + 1\<rparr>,
      new_work\<lparr>w_offset := (fst (w_offset w) + fst dm, snd (w_offset w) + snd dm),
                w_lvl := w_lvl w + 1\<rparr>)"

text \<open>
  What the compression receives and what it calls outside this repository:
  the neighbour matrix \<^verbatim>\<open>ann\<close> and the score matrix \<^verbatim>\<open>scores\<close>, the element callback
  \<^verbatim>\<open>Aelem(I, J, B)\<close>, the options, the interpolative decomposition
  \<^verbatim>\<open>ID_row(E, P, Jr, rtol, atol, max_rank, depth)\<close> of \<^verbatim>\<open>DenseMatrix\<close> (it returns the
  basis, here in dense form, and the selected rows) and \<^verbatim>\<open>std::nth_element\<close>, whose
  arrangement of equal elements is left to the implementation.
\<close>

record ann_env =
  e_ann :: "nat DenseMatrix"
  e_scores :: "real DenseMatrix"
  e_Aelem :: "nat list \<Rightarrow> nat list \<Rightarrow> real DenseMatrix \<Rightarrow> real DenseMatrix"
  e_opts :: HSSOptions
  e_ID_row :: "real DenseMatrix \<Rightarrow> real \<Rightarrow> real \<Rightarrow> int \<Rightarrow> real DenseMatrix \<times> nat list"
  e_nth_element :: "(nat \<times> real) list \<Rightarrow> nat \<Rightarrow> (nat \<times> real) list"

text \<open>
  Modelled from the spec: the element-extraction callback of a matrix \<open>A\<close> sets
  \<open>B = A(I, J)\<close>.
\<close>

definition elem_oracle :: "(nat \<Rightarrow> nat \<Rightarrow> real) \<Rightarrow> nat list \<Rightarrow> nat list
    \<Rightarrow> real DenseMatrix \<Rightarrow> real DenseMatrix" where
  "elem_oracle A I J B =
     B\<lparr>entry := (\<lambda>i j. if i < length I \<and> j < length J then A (I ! i) (J ! j) else entry B i j)\<rparr>"

text \<open>\<^verbatim>\<open>std::unique\<close> with equality of the first components: the first of each run stays.\<close>

fun unique_first :: "(nat \<times> real) list \<Rightarrow> (nat \<times> real) list" where
  "unique_first [] = []"
| "unique_first [x] = [x]"
| "unique_first (x # y # xs) =
     (if fst x = fst y then unique_first (x # xs) else x # unique_first (y # xs))"

text \<open>\<^verbatim>\<open>resize(n)\<close> of a vector of pairs.\<close>

definition resize :: "nat \<Rightarrow> (nat \<times> real) list \<Rightarrow> (nat \<times> real) list" where
  "resize n xs = take n xs @ replicate (n - length xs) (0, 0)"

text \<open>
  The cursor loop \<^verbatim>\<open>while (index < size && ids[index].first < key) index++\<close>. The second
  revision of the file finds the same position with \<^verbatim>\<open>std::lower_bound\<close> on the rest of
  the child's list, which is sorted by index.
\<close>

function advance :: "(nat \<times> real) list \<Rightarrow> nat \<Rightarrow> nat \<Rightarrow> nat" where
  "advance ids key idx =
     (if idx < length ids \<and> fst (ids ! idx) < key then advance ids key (Suc idx) else idx)"
  by pat_completeness auto
termination
  by (relation "measure (\<lambda>(ids, key, idx). length ids - idx)") auto

text \<open>
  The row indices \<open>I\<close> and the candidate columns collected by
  \<^verbatim>\<open>compute_local_samples_ann\<close>, the same in both revisions: for a leaf the neighbours
  of its points that lie outside its index range, for an internal node (\<open>ch\<close> holds the
  work records of its children) the candidates of the children that lie outside its
  range; then sorted, and one entry kept per index.
\<close>

definition sample_rows :: "HSSNode \<Rightarrow> WorkCompressANN
    \<Rightarrow> (WorkCompressANN \<times> WorkCompressANN) option \<Rightarrow> nat list" where
  "sample_rows d w ch =
     (case ch of
        None \<Rightarrow> map (\<lambda>i. i + fst (w_offset w)) [0 ..< rows d]
      | Some (w0, w1) \<Rightarrow> w_Ir w0 @ w_Ir w1)"

definition candidate_ids :: "ann_env \<Rightarrow> HSSNode \<Rightarrow> WorkCompressANN
    \<Rightarrow> (WorkCompressANN \<times> WorkCompressANN) option \<Rightarrow> (nat \<times> real) list" where
  "candidate_ids E d w ch =
     (let lo = fst (w_offset w);
          hi = fst (w_offset w) + rows d;
          collected =
            (case ch of
               None \<Rightarrow>
                 concat (map (\<lambda>i. concat (map (\<lambda>j.
                     if entry (e_ann E) j i < lo \<or> entry (e_ann E) j i \<ge> hi
                     then [(entry (e_ann E) j i, entry (e_scores E) j i)] else [])
                   [0 ..< nrows (e_ann E)])) [lo ..< hi])
             | Some (w0, w1) \<Rightarrow>
                 filter (\<lambda>x. fst x < lo \<or> fst x \<ge> hi) (w_ids_scores w0)
                 @ filter (\<lambda>x. fst x < lo \<or> fst x \<ge> hi) (w_ids_scores w1))
      in unique_first (sort (w_ids_scores w @ collected)))"

text \<open>
  \<^verbatim>\<open>compute_local_samples_ann\<close> of src/HSS/HSSMatrix.compress.kernel.hpp: at most
  \<open>d_max\<close> candidates are kept, those with the smallest scores; the internal node
  copies a column from a child that already has it and asks the callback otherwise.
\<close>

definition update_w_S :: "ann_env \<Rightarrow> nat list \<Rightarrow> nat \<Rightarrow> WorkCompressANN \<Rightarrow> nat \<Rightarrow> nat
    \<Rightarrow> real DenseMatrix \<Rightarrow> nat \<times> real DenseMatrix" where
  "update_w_S E Scolids cur_in_A w_child index_in_child row_shift Sm =
     (let idx = advance (w_ids_scores w_child) (Scolids ! cur_in_A) index_in_child in
      if idx < length (w_ids_scores w_child)
         \<and> fst (w_ids_scores w_child ! idx) = Scolids ! cur_in_A
      then (idx, fold (\<lambda>j Sm. set_entry Sm (j + row_shift) cur_in_A
                                  (entry (w_S w_child) (w_Jr w_child ! j) idx))
                   [0 ..< length (w_Jr w_child)] Sm)
      else
        let cur_submatrix = e_Aelem E (w_Ir w_child) [Scolids ! cur_in_A]
                              (DenseM (length (w_Ir w_child)) 1)
        in (idx, fold (\<lambda>j Sm. set_entry Sm (j + row_shift) cur_in_A (entry cur_submatrix j 0))
                   [0 ..< length (w_Ir w_child)] Sm))"

definition compute_local_samples_ann :: "ann_env \<Rightarrow> HSSNode \<Rightarrow> WorkCompressANN
    \<Rightarrow> (WorkCompressANN \<times> WorkCompressANN) option \<Rightarrow> WorkCompressANN" where
  "compute_local_samples_ann E d w ch =
     (let I = sample_rows d w ch;
          ids = candidate_ids E d w ch;
          d_max = (case ch of
                     None \<Rightarrow> size_t_of_int (int (length I) + opt_dd (e_opts E))
                   | Some (w0, w1) \<Rightarrow>
                       size_t_of_int (int (length (w_Ir w0) + length (w_Ir w1)) + opt_dd (e_opts E)));
          dn = min (length ids) d_max;
          kept = (if dn < length ids then resize dn (e_nth_element E ids dn) else ids);
          sorted_ids = sort kept;
          Scolids = map (\<lambda>j. fst (sorted_ids ! j)) [0 ..< dn];
          S0 = DenseM (length I) (length Scolids);
          Sm = (case ch of
                  None \<Rightarrow> e_Aelem E I Scolids S0
                | Some (w0, w1) \<Rightarrow>
                    fst (fold (\<lambda>cur_in_A (Sm, cur_in_first, cur_in_second).
                           let (c1, S1) = update_w_S E Scolids cur_in_A w0 cur_in_first 0 Sm;
                               (c2, S2) = update_w_S E Scolids cur_in_A w1 cur_in_second
                                            (length (w_Ir w0)) S1
                           in (S2, c1, c2))
                         [0 ..< length Scolids] (S0, 0, 0)))
      in w\<lparr>w_ids_scores := sorted_ids, w_S := Sm\<rparr>)"

text \<open>
  The selected global indices that \<^verbatim>\<open>compute_U_V_bases_ann\<close> appends to \<open>Ir\<close> and \<open>Ic\<close>.
\<close>

definition selected_rows :: "WorkCompressANN \<Rightarrow> (WorkCompressANN \<times> WorkCompressANN) option
    \<Rightarrow> nat list \<Rightarrow> nat list" where
  "selected_rows w ch Jr =
     (case ch of
        None \<Rightarrow> map (\<lambda>i. fst (w_offset w) + i) Jr
      | Some (w0, w1) \<Rightarrow>
          map (\<lambda>i. if i < length (w_Ir w0) then w_Ir w0 ! i else w_Ir w1 ! (i - length (w_Ir w0))) Jr)"

definition selected_cols :: "WorkCompressANN \<Rightarrow> (WorkCompressANN \<times> WorkCompressANN) option
    \<Rightarrow> nat list \<Rightarrow> nat list" where
  "selected_cols w ch Jc =
     (case ch of
        None \<Rightarrow> map (\<lambda>j. snd (w_offset w) + j) Jc
      | Some (w0, w1) \<Rightarrow>
          map (\<lambda>j. if j < length (w_Ic w0) then w_Ic w0 ! j else w_Ic w1 ! (j - length (w_Ic w0))) Jc)"

text \<open>
  \<^verbatim>\<open>compute_U_V_bases_ann\<close> of src/HSS/HSSMatrix.compress.kernel.hpp. The result is the
  node, the work record and the returned flag \<^verbatim>\<open>accurate\<close>; \<open>None\<close> is a failing
  \<^verbatim>\<open>assert\<close>. The absent \<^verbatim>\<open>check()\<close> of the basis is left out.
\<close>

definition compute_U_V_bases_ann :: "ann_env \<Rightarrow> HSSNode \<Rightarrow> WorkCompressANN
    \<Rightarrow> (WorkCompressANN \<times> WorkCompressANN) option
    \<Rightarrow> (HSSNode \<times> WorkCompressANN \<times> bool) option" where
  "compute_U_V_bases_ann E d w ch =
     (let rtol = rel_tol (e_opts E) / real_of_int (w_lvl w);
          atol = abs_tol (e_opts E) / real_of_int (w_lvl w);
          (Ub, Jr) = e_ID_row E (w_S w) rtol atol (max_rank (e_opts E));
          d1 = d\<lparr>hss_U := Ub, hss_V := Ub\<rparr>;
          w1 = w\<lparr>w_Jr := Jr, w_Jc := Jr\<rparr>
      in if ncols (hss_U d1) \<noteq> length (w_Jr w1) \<or> ncols (hss_V d1) \<noteq> length (w_Jc w1) then None
         else
           let dS = int (ncols (w_S w));
               accurate = (dS - opt_p (e_opts E) \<ge> max_rank (e_opts E)
                           \<or> (int (ncols (hss_U d1)) < dS - opt_p (e_opts E)
                              \<and> int (ncols (hss_V d1)) < dS - opt_p (e_opts E)));
               d2 = d1\<lparr>U_rank := ncols (hss_U d1), U_rows := nrows (hss_U d1),
                        V_rank := ncols (hss_V d1), V_rows := nrows (hss_V d1)\<rparr>;
               w2 = w1\<lparr>w_Ir := w_Ir w1 @ selected_rows w1 ch (w_Jr w1),
                        w_Ic := w_Ic w1 @ selected_cols w1 ch (w_Jc w1)\<rparr>
           in Some (d2, w2, accurate))"

text \<open>
  The last statement of \<^verbatim>\<open>compress_recursive_ann\<close> in that file (from
  \<^verbatim>\<open>if (w.lvl == 0)\<close> on): the value of \<^verbatim>\<open>compute_U_V_bases_ann\<close> is not used.
\<close>

definition compress_tail :: "ann_env \<Rightarrow> HSSNode \<Rightarrow> WorkCompressANN
    \<Rightarrow> (WorkCompressANN \<times> WorkCompressANN) option \<Rightarrow> (HSSNode \<times> WorkCompressANN) option" where
  "compress_tail E d w ch =
     (if w_lvl w = 0 then Some (d\<lparr>U_state := COMPRESSED, V_state := COMPRESSED\<rparr>, w)
      else
        case compute_U_V_bases_ann E d (compute_local_samples_ann E d w ch) ch of
          None \<Rightarrow> None
        | Some (d', w', accurate) \<Rightarrow> Some (d'\<lparr>U_state := COMPRESSED, V_state := COMPRESSED\<rparr>, w'))"

text \<open>
  \<^verbatim>\<open>compress_recursive_ann\<close> of src/HSS/HSSMatrix.compress.kernel.hpp. The two children
  are independent tasks in the source and are run one after the other here.
\<close>

fun compress_recursive_ann :: "ann_env \<Rightarrow> HSSMatrix \<Rightarrow> WorkCompressANN
    \<Rightarrow> (HSSMatrix \<times> WorkCompressANN) option" where
  "compress_recursive_ann E (Leaf d) w =
     (let d1 = (if is_untouched d
                then d\<lparr>hss_D := e_Aelem E (map (\<lambda>i. i + fst (w_offset w)) [0 ..< rows d])
                                          (map (\<lambda>j. j + snd (w_offset w)) [0 ..< cols d])
                                          (DenseM (rows d) (cols d))\<rparr>
                else d)
      in case compress_tail E d1 w None of
           None \<Rightarrow> None
         | Some (d2, w2) \<Rightarrow> Some (Leaf d2, w2))"
| "compress_recursive_ann E (Node d c0 c1) w =
     (case compress_recursive_ann E c0 (fst (work_split w (dims c0))) of
        None \<Rightarrow> None
      | Some (c0', w0) \<Rightarrow>
          (case compress_recursive_ann E c1 (snd (work_split w (dims c0))) of
             None \<Rightarrow> None
           | Some (c1', w1) \<Rightarrow>
               if \<not> is_compressed (node c0') \<or> \<not> is_compressed (node c1')
               then Some (Node d c0' c1', w)
               else
                 let d1 = (if is_untouched d
                           then d\<lparr>hss_B01 := e_Aelem E (w_Ir w0) (w_Ic w1)
                                     (DenseM (U_rank (node c0')) (V_rank (node c1'))),
                                  hss_B10 := e_Aelem E (w_Ir w1) (w_Ic w0)
                                     (DenseM (U_rank (node c1')) (V_rank (node c0')))\<rparr>
                           else d)
                 in case compress_tail E d1 w (Some (w0, w1)) of
                      None \<Rightarrow> None
                    | Some (d2, w2) \<Rightarrow> Some (Node d2 c0' c1', w2)))"

text \<open>\<^verbatim>\<open>compress_ann\<close>: the recursion from a fresh work record.\<close>

definition compress_ann :: "ann_env \<Rightarrow> HSSMatrix \<Rightarrow> HSSMatrix option" where
  "compress_ann E t = map_option fst (compress_recursive_ann E t new_work)"

subsection \<open>The second revision of the file\<close>

text \<open>
  The copy of HSSMatrix.compress.kernel.hpp that is kept in \<^verbatim>\<open>runYang_Formula.sh\<close> differs
  in four places: no candidate column is dropped, \<open>B10\<close> is the transpose of \<open>B01\<close> and
  both are extracted on every visit, the accuracy check has one more way to pass and
  returns before the ranks and the selected indices are stored when it fails, and the
  node is set to COMPRESSED only when the check passes. These are the definitions with
  the suffix \<open>_v2\<close>.
\<close>

definition transpose :: "'a DenseMatrix \<Rightarrow> 'a DenseMatrix" where
  "transpose M = \<lparr>nrows = ncols M, ncols = nrows M, entry = (\<lambda>i j. entry M j i)\<rparr>"

definition fill_from_child :: "ann_env \<Rightarrow> (nat \<times> real) list \<Rightarrow> WorkCompressANN \<Rightarrow> nat
    \<Rightarrow> real DenseMatrix \<Rightarrow> real DenseMatrix" where
  \<comment> \<open>the body of \<^verbatim>\<open>for (int c=0; c<2; c++)\<close> for the child with work record \<open>wc\<close>\<close>
  "fill_from_child E ids wc dm Sm =
     fst (fold (\<lambda>j (Sm, it_lo).
            let idj = fst (ids ! j);
                l = advance (w_ids_scores wc) idj it_lo
            in if l < length (w_ids_scores wc) \<and> fst (w_ids_scores wc ! l) = idj
               then (fold (\<lambda>i Sm. set_entry Sm (dm + i) j (entry (w_S wc) (w_Jr wc ! i) l))
                       [0 ..< length (w_Ir wc)] Sm, l)
               else (write_view Sm dm j
                       (e_Aelem E (w_Ir wc) [idj] (view (length (w_Ir wc)) 1 Sm dm j)), l))
          [0 ..< length ids] (Sm, 0))"

definition compute_local_samples_ann_v2 :: "ann_env \<Rightarrow> HSSNode \<Rightarrow> WorkCompressANN
    \<Rightarrow> (WorkCompressANN \<times> WorkCompressANN) option \<Rightarrow> WorkCompressANN" where
  "compute_local_samples_ann_v2 E d w ch =
     (let I = sample_rows d w ch;
          ids = sort (candidate_ids E d w ch);
          dn = length ids;
          Sm = (case ch of
                  None \<Rightarrow>
                    let Scolids = map (\<lambda>j. fst (ids ! j)) [0 ..< dn]
                    in e_Aelem E I Scolids (DenseM (length I) (length Scolids))
                | Some (w0, w1) \<Rightarrow>
                    fill_from_child E ids w1 (length (w_Ir w0))
                      (fill_from_child E ids w0 0 (DenseM (length I) dn)))
      in w\<lparr>w_ids_scores := ids, w_S := Sm\<rparr>)"

definition compute_U_V_bases_ann_v2 :: "ann_env \<Rightarrow> HSSNode \<Rightarrow> WorkCompressANN
    \<Rightarrow> (WorkCompressANN \<times> WorkCompressANN) option
    \<Rightarrow> (HSSNode \<times> WorkCompressANN \<times> bool) option" where
  "compute_U_V_bases_ann_v2 E d w ch =
     (let rtol = rel_tol (e_opts E) / real_of_int (w_lvl w);
          atol = abs_tol (e_opts E) / real_of_int (w_lvl w);
          (Ub, Jr) = e_ID_row E (w_S w) rtol atol (max_rank (e_opts E));
          d1 = d\<lparr>hss_U := Ub, hss_V := Ub\<rparr>;
          w1 = w\<lparr>w_Jr := Jr, w_Jc := Jr\<rparr>
      in if ncols (hss_U d1) \<noteq> length (w_Jr w1) \<or> ncols (hss_V d1) \<noteq> length (w_Jc w1) then None
         else
           let dS = int (ncols (w_S w)) in
           if \<not> (size_t_of_int dS \<ge> cols d \<or> dS \<ge> max_rank (e_opts E)
                  \<or> (int (ncols (hss_U d1)) + opt_p (e_opts E) < dS
                     \<and> int (ncols (hss_V d1)) + opt_p (e_opts E) < dS))
           then Some (d1, w1, False)
           else
             let d2 = d1\<lparr>U_rank := ncols (hss_U d1), U_rows := nrows (hss_U d1),
                          V_rank := ncols (hss_V d1), V_rows := nrows (hss_V d1)\<rparr>;
                 w2 = w1\<lparr>w_Ir := w_Ir w1 @ selected_rows w1 ch (w_Jr w1),
                          w_Ic := w_Ic w1 @ selected_cols w1 ch (w_Jc w1)\<rparr>
             in Some (d2, w2, True))"

definition compress_tail_v2 :: "ann_env \<Rightarrow> HSSNode \<Rightarrow> WorkCompressANN
    \<Rightarrow> (WorkCompressANN \<times> WorkCompressANN) option \<Rightarrow> (HSSNode \<times> WorkCompressANN) option" where
  "compress_tail_v2 E d w ch =
     (if w_lvl w = 0 then Some (d\<lparr>U_state := COMPRESSED, V_state := COMPRESSED\<rparr>, w)
      else
        case compute_U_V_bases_ann_v2 E d (compute_local_samples_ann_v2 E d w ch) ch of
          None \<Rightarrow> None
        | Some (d', w', accurate) \<Rightarrow>
            Some (if accurate then d'\<lparr>U_state := COMPRESSED, V_state := COMPRESSED\<rparr> else d', w'))"

fun compress_recursive_ann_v2 :: "ann_env \<Rightarrow> HSSMatrix \<Rightarrow> WorkCompressANN
    \<Rightarrow> (HSSMatrix \<times> WorkCompressANN) option" where
  "compress_recursive_ann_v2 E (Leaf d) w =
     (let d1 = (if is_untouched d
                then d\<lparr>hss_D := e_Aelem E (map (\<lambda>i. i + fst (w_offset w)) [0 ..< rows d])
                                          (map (\<lambda>j. j + snd (w_offset w)) [0 ..< cols d])
                                          (DenseM (rows d) (cols d))\<rparr>
                else d)
      in case compress_tail_v2 E d1 w None of
           None \<Rightarrow> None
         | Some (d2, w2) \<Rightarrow> Some (Leaf d2, w2))"
| "compress_recursive_ann_v2 E (Node d c0 c1) w =
     (case compress_recursive_ann_v2 E c0 (fst (work_split w (dims c0))) of
        None \<Rightarrow> None
      | Some (c0', w0) \<Rightarrow>
          (case compress_recursive_ann_v2 E c1 (snd (work_split w (dims c0))) of
             None \<Rightarrow> None
           | Some (c1', w1) \<Rightarrow>
               if \<not> is_compressed (node c0') \<or> \<not> is_compressed (node c1')
               then Some (Node d c0' c1', w)
               else
                 let B = e_Aelem E (w_Ir w0) (w_Ic w1)
                           (DenseM (U_rank (node c0')) (V_rank (node c1')));
                     d1 = d\<lparr>hss_B01 := B, hss_B10 := transpose B\<rparr>
                 in case compress_tail_v2 E d1 w (Some (w0, w1)) of
                      None \<Rightarrow> None
                    | Some (d2, w2) \<Rightarrow> Some (Node d2 c0' c1', w2)))"

subsection \<open>Notions used to state the properties\<close>

text \<open>The leaves of a tree with the offset of each, starting from the offset of the root.\<close>

fun leaves_at :: "HSSMatrix \<Rightarrow> nat \<times> nat \<Rightarrow> (HSSNode \<times> nat \<times> nat) list" where
  "leaves_at (Leaf d) off = [(d, off)]"
| "leaves_at (Node d c0 c1) off =
     leaves_at c0 off @ leaves_at c1 (fst off + fst (dims c0), snd off + snd (dims c0))"

fun nodes :: "HSSMatrix \<Rightarrow> HSSNode list" where
  "nodes (Leaf d) = [d]"
| "nodes (Node d c0 c1) = d # nodes c0 @ nodes c1"

text \<open>
  The states of \<open>t'\<close> are those of \<open>t\<close> or later ones, node by node: the two trees have
  the same shape, and no U-state and no V-state is earlier in \<open>t'\<close> than in \<open>t\<close>.
\<close>

fun states_advance :: "HSSMatrix \<Rightarrow> HSSMatrix \<Rightarrow> bool" where
  "states_advance (Leaf d) (Leaf d') =
     (state_rank (U_state d) \<le> state_rank (U_state d')
      \<and> state_rank (V_state d) \<le> state_rank (V_state d'))"
| "states_advance (Node d c0 c1) (Node d' c0' c1') =
     (state_rank (U_state d) \<le> state_rank (U_state d')
      \<and> state_rank (V_state d) \<le> state_rank (V_state d')
      \<and> states_advance c0 c0' \<and> states_advance c1 c1')"
| "states_advance _ _ = False"

text \<open>
  A leaf with its offset \<open>(o1, o2)\<close> holds the block of the matrix \<open>A\<close> at that offset:
  its \<open>D\<close> has the size of the leaf and \<open>D(i, j) = A(o1 + i, o2 + j)\<close>.
\<close>

definition leaf_is_block :: "(nat \<Rightarrow> nat \<Rightarrow> real) \<Rightarrow> HSSNode \<times> nat \<times> nat \<Rightarrow> bool" where
  "leaf_is_block A x =
     (case x of (d, o1, o2) \<Rightarrow>
        nrows (hss_D d) = rows d \<and> ncols (hss_D d) = cols d
        \<and> (\<forall>i < rows d. \<forall>j < cols d. entry (hss_D d) i j = A (o1 + i) (o2 + j)))"

text \<open>
  Modelled from the spec: the interpolative decomposition selects rows of the sample
  block as a basis; \<^verbatim>\<open>ID_row\<close> of \<^verbatim>\<open>DenseMatrix\<close> is not among the sources. Its basis
  has one row per row of the sample block and one column per selected row.
\<close>

definition ID_row_contract :: "ann_env \<Rightarrow> bool" where
  "ID_row_contract E =
     (\<forall>Sm rt atl mr. nrows (fst (e_ID_row E Sm rt atl mr)) = nrows Sm
        \<and> ncols (fst (e_ID_row E Sm rt atl mr)) = length (snd (e_ID_row E Sm rt atl mr)))"

text \<open>
  A partition as the constructor makes it for a square matrix: an internal node has the
  rows and the columns of its children together, and the leaves are square.
\<close>

fun square_partition :: "HSSMatrix \<Rightarrow> bool" where
  "square_partition (Leaf d) = (rows d = cols d)"
| "square_partition (Node d c0 c1) =
     (rows d = rows (node c0) + rows (node c1) \<and> cols d = cols (node c0) + cols (node c1)
      \<and> square_partition c0 \<and> square_partition c1)"

text \<open>
  The generators of a subtree have the shape that its parent expects: as many rows as
  the subtree has rows (columns, for \<open>V\<close>) and as many columns as its rank.
\<close>

definition gen_ok :: "HSSMatrix \<Rightarrow> bool" where
  "gen_ok t = (nrows (U_agg t) = rows (node t) \<and> nrows (V_agg t) = cols (node t)
             \<and> ncols (U_agg t) = U_rank (node t) \<and> ncols (V_agg t) = V_rank (node t))"

subsection \<open>A small run\<close>

text \<open>
  Two points with the kernel matrix \<open>[[5, 2], [2, 5]]\<close>, each the only neighbour of the
  other, a tree with two leaves of size 1, the default options with leaf size 1, and an
  interpolative decomposition that keeps every row.
\<close>

definition example_env :: ann_env where
  "example_env =
     \<lparr>e_ann = \<lparr>nrows = 1, ncols = 2, entry = (\<lambda>j i. if i = 0 then 1 else 0)\<rparr>,
      e_scores = \<lparr>nrows = 1, ncols = 2, entry = (\<lambda>j i. 1)\<rparr>,
      e_Aelem = elem_oracle (\<lambda>i j. if i = j then 5 else 2),
      e_opts = \<lparr>rel_tol = 1 / 100, abs_tol = 1 / 10 ^ 8, max_rank = 5000, leaf_size = 1,
                opt_p = 10, opt_dd = 8\<rparr>,
      e_ID_row = (\<lambda>Sm rt atl mr. (\<lparr>nrows = nrows Sm, ncols = nrows Sm,
                                     entry = (\<lambda>i j. if i = j then 1 else 0)\<rparr>, [0 ..< nrows Sm])),
      e_nth_element = (\<lambda>xs n. xs)\<rparr>"

definition example_tree :: HSSMatrix where
  "example_tree = Node (HSSMatrixBase 2 2) (Leaf (HSSMatrixBase 1 1)) (Leaf (HSSMatrixBase 1 1))"

subsection \<open>The measured error\<close>

text \<open>
  \<^verbatim>\<open>fit_HSS\<close> of KernelRegression.hpp fills the dense kernel matrix \<^verbatim>\<open>Kdense\<close> with
  \<^verbatim>\<open>eval(i, j)\<close>, subtracts it from \<^verbatim>\<open>H.dense()\<close> with \<^verbatim>\<open>scaled_add(-1., Kdense)\<close> and
  prints the quotient of the two Frobenius norms \<^verbatim>\<open>normF()\<close>. Modelled from the spec:
  \<^verbatim>\<open>scaled_add\<close> and \<^verbatim>\<open>normF\<close> of \<^verbatim>\<open>DenseMatrix\<close> (not among the sources) add a multiple
  of a matrix and take the Frobenius norm, the square root of the sum of the squares of
  the entries.
\<close>

definition scaled_add :: "real \<Rightarrow> real DenseMatrix \<Rightarrow> real DenseMatrix \<Rightarrow> real DenseMatrix" where
  "scaled_add alpha B A = A\<lparr>entry := (\<lambda>i j. entry A i j + alpha * entry B i j)\<rparr>"

definition normF :: "real DenseMatrix \<Rightarrow> real" where
  "normF M = sqrt (\<Sum>i < nrows M. \<Sum>j < ncols M. (entry M i j)\<^sup>2)"

definition Kdense :: "(nat \<Rightarrow> nat \<Rightarrow> real) \<Rightarrow> nat \<Rightarrow> real DenseMatrix" where
  "Kdense A n = \<lparr>nrows = n, ncols = n, entry = A\<rparr>"

subsection \<open>A run on six points\<close>

text \<open>
  Six points in two clusters \<open>{0, 1, 2}\<close> and \<open>{3, 4, 5}\<close> with the symmetric kernel
  matrix \<open>six_A\<close>: 5 on the diagonal, 3 inside a cluster and, between the clusters, 2
  except in the row and the column of point 5, which hold 1, and at \<open>(2, 5)\<close> and
  \<open>(5, 2)\<close>, which hold 0. Each point has its four nearest neighbours (largest kernel
  values, the smaller index first among equal ones) in \<^verbatim>\<open>ann\<close>, two of them in the
  other cluster; all scores are 1. The options
  are the defaults with leaf size 3 and no oversampling, and the tree is the one that the
  constructor builds for them. The interpolative decomposition keeps the first row and
  expresses every row as a multiple of it, which is exact on a sample block of rank one.
\<close>

definition six_A :: "nat \<Rightarrow> nat \<Rightarrow> real" where
  "six_A i j =
     (if i = j then 5
      else if (i < 3) = (j < 3) then 3
      else if (i = 2 \<and> j = 5) \<or> (i = 5 \<and> j = 2) then 0
      else if i = 5 \<or> j = 5 then 1
      else 2)"

definition six_env :: ann_env where
  "six_env =
     \<lparr>e_ann = \<lparr>nrows = 4, ncols = 6,
                entry = (\<lambda>j i. [[1, 2, 3, 4], [0, 2, 3, 4], [0, 1, 3, 4],
                                  [4, 5, 0, 1], [3, 5, 0, 1], [3, 4, 0, 1]] ! i ! j)\<rparr>,
      e_scores = \<lparr>nrows = 4, ncols = 6, entry = (\<lambda>j i. 1)\<rparr>,
      e_Aelem = elem_oracle six_A,
      e_opts = \<lparr>rel_tol = 1 / 100, abs_tol = 1 / 10 ^ 8, max_rank = 5000, leaf_size = 3,
                opt_p = 0, opt_dd = 8\<rparr>,
      e_ID_row = (\<lambda>Sm rt atl mr. (\<lparr>nrows = nrows Sm, ncols = 1,
                                     entry = (\<lambda>i j. entry Sm i 0 / entry Sm 0 0)\<rparr>, [0])),
      e_nth_element = (\<lambda>xs n. xs)\<rparr>"

definition six_tree :: HSSMatrix where
  "six_tree = Node (HSSMatrixBase 6 6) (Leaf (HSSMatrixBase 3 3)) (Leaf (HSSMatrixBase 3 3))"

section \<open>Properties of the leaf ranges\<close>

lemma c_div_nonneg: "0 \<le> n \<Longrightarrow> 1 \<le> p \<Longrightarrow> c_div n p = n div p"
  by (cases "n = 0") (simp_all add: c_div_def)

lemma c_mod_nonneg: "0 \<le> n \<Longrightarrow> 1 \<le> p \<Longrightarrow> c_mod n p = n mod p"
  by (cases "n = 0") (simp_all add: c_mod_def)

lemma range_begin_eq:
  assumes "0 \<le> n" "1 \<le> p"
  shows "range_begin n p r = r * (n div p) + min r (n mod p)"
  using assms
  by (simp add: range_begin_def getLeafsRange_def Let_def c_div_nonneg c_mod_nonneg min_def)

lemma range_end_eq:
  assumes "0 \<le> n" "1 \<le> p"
  shows "range_end n p r = range_begin n p r + (if r < n mod p then n div p + 1 else n div p)"
  using assms
  by (simp add: range_end_def range_begin_def getLeafsRange_def Let_def
      c_div_nonneg c_mod_nonneg)

lemma range_end_next:
  assumes "0 \<le> n" "1 \<le> p"
  shows "range_end n p r = range_begin n p (r + 1)"
  using assms
  by (simp add: range_end_eq range_begin_eq min_def algebra_simps)

lemma range_begin_mono:
  assumes "0 \<le> n" "1 \<le> p" "r \<le> s"
  shows "range_begin n p r \<le> range_begin n p s"
proof -
  have "0 \<le> n div p" using assms by (simp add: pos_imp_zdiv_nonneg_iff)
  then have "r * (n div p) \<le> s * (n div p)"
    using assms(3) by (rule mult_right_mono[rotated])
  moreover have "min r (n mod p) \<le> min s (n mod p)" using assms(3) by simp
  ultimately show ?thesis using assms by (simp add: range_begin_eq)
qed

lemma range_begin_p:
  assumes "0 \<le> n" "1 \<le> p"
  shows "range_begin n p p = n"
proof -
  have "n mod p < p" using assms by simp
  then have "min p (n mod p) = n mod p" by simp
  then show ?thesis using assms by (simp add: range_begin_eq)
qed

lemma range_cover:
  assumes "0 \<le> n" "1 \<le> p" "0 \<le> k" "range_begin n p 0 \<le> x" "x < range_begin n p k"
  shows "\<exists>r. 0 \<le> r \<and> r < k \<and> range_begin n p r \<le> x \<and> x < range_begin n p (r + 1)"
  using assms(3,5)
proof (induction k rule: int_ge_induct)
  case base
  then show ?case using assms(4) by simp
next
  case (step i)
  show ?case
  proof (cases "x < range_begin n p i")
    case True
    then obtain r where "0 \<le> r" "r < i" "range_begin n p r \<le> x" "x < range_begin n p (r + 1)"
      using step.IH by blast
    then show ?thesis by (intro exI[of _ r]) simp
  next
    case False
    then show ?thesis using step.hyps step.prems by (intro exI[of _ i]) simp
  qed
qed

text \<open>
  C10. For \<open>n \<ge> 0\<close> and \<open>p \<ge> 1\<close> the half-open ranges returned for the ranks
  \<open>0, ..., p - 1\<close> start at 0, end at \<open>n\<close>, are contiguous (each range ends where the
  next one begins), are pairwise disjoint, cover exactly \<open>[0, n)\<close>, and have length
  \<open>n div p + 1\<close> for the first \<open>n mod p\<close> ranks and \<open>n div p\<close> for the others. Every
  bound lies between 0 and \<open>n\<close>.
\<close>

theorem getLeafsRange_partition:
  assumes "0 \<le> n" and "1 \<le> p"
  shows "range_begin n p 0 = 0
       \<and> range_end n p (p - 1) = n
       \<and> (\<forall>r. 0 \<le> r \<and> r < p - 1 \<longrightarrow> range_end n p r = range_begin n p (r + 1))
       \<and> (\<forall>r. 0 \<le> r \<and> r < p \<longrightarrow>
            length (getLeafsRange n p r) = 2
          \<and> 0 \<le> range_begin n p r \<and> range_end n p r \<le> n
          \<and> range_end n p r - range_begin n p r
              = (if r < n mod p then n div p + 1 else n div p))
       \<and> (\<forall>r s. 0 \<le> r \<and> r < s \<and> s < p \<longrightarrow>
            {range_begin n p r ..< range_end n p r}
              \<inter> {range_begin n p s ..< range_end n p s} = {})
       \<and> (\<Union>r \<in> {0 ..< p}. {range_begin n p r ..< range_end n p r}) = {0 ..< n}"
proof -
  have b0: "range_begin n p 0 = 0" using assms by (simp add: range_begin_eq)
  have e_last: "range_end n p (p - 1) = n"
    using assms range_end_next[of n p "p - 1"] range_begin_p[of n p] by simp
  have len: "range_end n p r - range_begin n p r
              = (if r < n mod p then n div p + 1 else n div p)" for r
    using assms by (simp add: range_end_eq)
  have lo: "0 \<le> range_begin n p r" if "0 \<le> r" for r
    using range_begin_mono[OF assms that] b0 by simp
  have hi: "range_end n p r \<le> n" if "r < p" for r
  proof -
    have "range_begin n p (r + 1) \<le> range_begin n p p"
      using that by (intro range_begin_mono assms) simp
    then show ?thesis using assms by (simp add: range_end_next range_begin_p)
  qed
  have disj: "{range_begin n p r ..< range_end n p r}
              \<inter> {range_begin n p s ..< range_end n p s} = {}" if "r < s" for r s
  proof -
    have "range_end n p r \<le> range_begin n p s"
      using that assms range_begin_mono[of n p "r + 1" s] by (simp add: range_end_next)
    then show ?thesis by auto
  qed
  have cover: "(\<Union>r \<in> {0 ..< p}. {range_begin n p r ..< range_end n p r}) = {0 ..< n}"
  proof (rule set_eqI, rule iffI)
    fix x assume "x \<in> (\<Union>r \<in> {0 ..< p}. {range_begin n p r ..< range_end n p r})"
    then obtain r where r: "0 \<le> r" "r < p" "range_begin n p r \<le> x" "x < range_end n p r"
      by auto
    then show "x \<in> {0 ..< n}" using lo[of r] hi[of r] by auto
  next
    fix x assume "x \<in> {0 ..< n}"
    then have "range_begin n p 0 \<le> x" "x < range_begin n p p"
      using b0 range_begin_p[OF assms] by auto
    then obtain r where "0 \<le> r" "r < p" "range_begin n p r \<le> x"
        "x < range_begin n p (r + 1)"
      using range_cover[OF assms, of p x] assms by auto
    then show "x \<in> (\<Union>r \<in> {0 ..< p}. {range_begin n p r ..< range_end n p r})"
      using assms by (auto simp: range_end_next)
  qed
  have l2: "length (getLeafsRange n p r) = 2" for r
    by (simp add: getLeafsRange_def Let_def)
  have nxt: "range_end n p r = range_begin n p (r + 1)" for r
    by (rule range_end_next[OF assms])
  show ?thesis
  proof (intro conjI allI impI)
    show "range_begin n p 0 = 0" by (rule b0)
    show "range_end n p (p - 1) = n" by (rule e_last)
    show "(\<Union>r \<in> {0 ..< p}. {range_begin n p r ..< range_end n p r}) = {0 ..< n}"
      by (rule cover)
  qed (use nxt len lo hi disj l2 in blast)+
qed

theorem getLeafsRange_partition_witness:
  "map (getLeafsRange 10 3) [0, 1, 2] = [[0, 4], [4, 7], [7, 10]]
   \<and> (\<Union>r \<in> {0 ..< 3}. {range_begin 10 3 r ..< range_end 10 3 r}) = {0 ..< 10}"
  using getLeafsRange_partition[of 10 3]
  by (simp add: getLeafsRange_def c_div_def c_mod_def Let_def)

section \<open>The kernel oracle\<close>

lemma eval_diag: "eval K i j = (if i = j then eval_kernel_function K (kdata K i) (kdata K j) + lambda K
   else eval_kernel_function K (kdata K i) (kdata K j))"
  by (simp add: eval_def)

lemma fill_rows_ok:
  assumes "\<forall>i \<in> set is. I ! i < kn K" "J ! j < kn K" "distinct is"
  shows "\<exists>B'. fill_rows K I J j is B = Inr B' \<and> nrows B' = nrows B \<and> ncols B' = ncols B
      \<and> (\<forall>a b. entry B' a b = (if a \<in> set is \<and> b = j then eval K (I ! a) (J ! j) else entry B a b))"
  using assms
proof (induction "is" arbitrary: B)
  case Nil
  then show ?case by simp
next
  case (Cons i "is")
  let ?B1 = "set_entry B i j (eval K (I ! i) (J ! j))"
  from Cons.prems have "\<forall>i \<in> set is. I ! i < kn K" "distinct is" "i \<notin> set is" "I ! i < kn K" by auto
  from Cons.IH[OF this(1) Cons.prems(2) this(2), of ?B1]
  obtain B' where B': "fill_rows K I J j is ?B1 = Inr B'" "nrows B' = nrows ?B1" "ncols B' = ncols ?B1"
    "\<forall>a b. entry B' a b = (if a \<in> set is \<and> b = j then eval K (I ! a) (J ! j) else entry ?B1 a b)"
    by blast
  show ?case using B' Cons.prems \<open>i \<notin> set is\<close>
    by (auto simp: set_entry_def)
qed

lemma fill_cols_ok:
  assumes "\<forall>i < length I. I ! i < kn K" "\<forall>j \<in> set js. J ! j < kn K" "distinct js"
  shows "\<exists>B'. fill_cols K I J js B = Inr B' \<and> nrows B' = nrows B \<and> ncols B' = ncols B
      \<and> (\<forall>a b. entry B' a b = (if a < length I \<and> b \<in> set js then eval K (I ! a) (J ! b) else entry B a b))"
  using assms(2,3)
proof (induction js arbitrary: B)
  case Nil
  then show ?case by simp
next
  case (Cons j js)
  have "\<forall>i \<in> set [0 ..< length I]. I ! i < kn K" using assms(1) by simp
  from fill_rows_ok[OF this, of J j B] Cons.prems
  obtain B1 where B1: "fill_rows K I J j [0 ..< length I] B = Inr B1" "nrows B1 = nrows B" "ncols B1 = ncols B"
    "\<forall>a b. entry B1 a b = (if a \<in> set [0 ..< length I] \<and> b = j then eval K (I ! a) (J ! j) else entry B a b)"
    by auto
  from Cons.prems have "\<forall>j \<in> set js. J ! j < kn K" "distinct js" "j \<notin> set js" by auto
  from Cons.IH[OF this(1,2), of B1]
  obtain B' where B': "fill_cols K I J js B1 = Inr B'" "nrows B' = nrows B1" "ncols B' = ncols B1"
    "\<forall>a b. entry B' a b = (if a < length I \<and> b \<in> set js then eval K (I ! a) (J ! b) else entry B1 a b)"
    by blast
  show ?case using B1 B' \<open>j \<notin> set js\<close> by auto
qed

text \<open>
  C9. \<^verbatim>\<open>Kernel::eval(i, j)\<close> is the kernel function of the two data points plus
  \<open>lambda\<close> on the diagonal and exactly the kernel function off the diagonal, and the
  extraction operator sets \<open>B(i, j) = eval(I[i], J[j])\<close> for all \<open>i < |I|\<close>, \<open>j < |J|\<close>
  (it returns normally when \<open>B\<close> has the size \<open>|I| \<times> |J|\<close> and all indices are below
  \<open>n\<close>): the matrix handed to the compression is the kernel matrix plus \<open>lambda\<close> times
  the identity.
\<close>

theorem Kernel_eval_regularized:
  "(\<forall>i j. eval K i j = (if i = j then eval_kernel_function K (kdata K i) (kdata K j) + lambda K
                        else eval_kernel_function K (kdata K i) (kdata K j)))
   \<and> (nrows B = length I \<and> ncols B = length J
        \<and> (\<forall>i < length I. I ! i < kn K) \<and> (\<forall>j < length J. J ! j < kn K)
      \<longrightarrow> (\<exists>B'. Kernel_call K I J B = Inr B' \<and> nrows B' = length I \<and> ncols B' = length J
              \<and> (\<forall>i < length I. \<forall>j < length J. entry B' i j = eval K (I ! i) (J ! j))))"
proof (intro conjI impI allI)
  fix i j show "eval K i j = (if i = j then eval_kernel_function K (kdata K i) (kdata K j) + lambda K
                        else eval_kernel_function K (kdata K i) (kdata K j))"
    by (rule eval_diag)
next
  assume a: "nrows B = length I \<and> ncols B = length J
        \<and> (\<forall>i < length I. I ! i < kn K) \<and> (\<forall>j < length J. J ! j < kn K)"
  then have "\<forall>j \<in> set [0 ..< length J]. J ! j < kn K" by simp
  from fill_cols_ok[OF _ this, of I B] a
  obtain B' where "fill_cols K I J [0 ..< length J] B = Inr B'" "nrows B' = nrows B" "ncols B' = ncols B"
    "\<forall>a b. entry B' a b = (if a < length I \<and> b \<in> set [0 ..< length J] then eval K (I ! a) (J ! b) else entry B a b)"
    by auto
  then show "\<exists>B'. Kernel_call K I J B = Inr B' \<and> nrows B' = length I \<and> ncols B' = length J
              \<and> (\<forall>i < length I. \<forall>j < length J. entry B' i j = eval K (I ! i) (J ! j))"
    using a by (auto simp: Kernel_call_def)
qed

theorem Kernel_eval_regularized_witness:
  "\<exists>B'. Kernel_call \<lparr>kdata = (\<lambda>i. i), kn = 3, lambda = 10,
                        eval_kernel_function = (\<lambda>x y. int (x + y))\<rparr>
            [0, 2] [2, 1] (DenseM 2 2) = Inr B'
      \<and> entry B' 0 0 = 2 \<and> entry B' 0 1 = 1 \<and> entry B' 1 0 = 14 \<and> entry B' 1 1 = 3"
  using Kernel_eval_regularized[of "\<lparr>kdata = (\<lambda>i. i), kn = 3, lambda = 10,
                        eval_kernel_function = (\<lambda>x y. int (x + y))\<rparr>" "DenseM 2 2" "[0, 2]" "[2, 1]"]
  by (auto simp: DenseM_def eval_def nth_Cons' less_Suc_eq)

section \<open>Elimination of a dense front\<close>

lemma replace_tiny_fold:
  assumes "distinct is"
  shows "nrows (fold (\<lambda>i M. if cmod (entry M i i) < thresh
                  then set_entry M i i (of_real (if Re (entry M i i) < 0 then - thresh else thresh))
                  else M) is M) = nrows M
     \<and> ncols (fold (\<lambda>i M. if cmod (entry M i i) < thresh
                  then set_entry M i i (of_real (if Re (entry M i i) < 0 then - thresh else thresh))
                  else M) is M) = ncols M
     \<and> (\<forall>a b. entry (fold (\<lambda>i M. if cmod (entry M i i) < thresh
                  then set_entry M i i (of_real (if Re (entry M i i) < 0 then - thresh else thresh))
                  else M) is M) a b
          = (if a = b \<and> a \<in> set is \<and> cmod (entry M a a) < thresh
             then of_real (if Re (entry M a a) < 0 then - thresh else thresh)
             else entry M a b))"
  using assms
proof (induction "is" arbitrary: M)
  case Nil
  then show ?case by simp
next
  case (Cons i "is")
  then have d: "distinct is" and ni: "i \<notin> set is" by auto
  show ?case
    using Cons.IH[OF d] ni by (auto simp: set_entry_def)
qed

lemma replace_tiny_pivots_loop_entry:
  "entry (replace_tiny_pivots_loop thresh M) a b
     = (if a = b \<and> a < nrows M \<and> cmod (entry M a a) < thresh
        then of_real (if Re (entry M a a) < 0 then - thresh else thresh)
        else entry M a b)"
  using replace_tiny_fold[of "[0 ..< nrows M]" thresh M]
  by (simp add: replace_tiny_pivots_loop_def)

lemma replace_tiny_pivots_loop_dims:
  "nrows (replace_tiny_pivots_loop thresh M) = nrows M"
  "ncols (replace_tiny_pivots_loop thresh M) = ncols M"
  using replace_tiny_fold[of "[0 ..< nrows M]" thresh M]
  by (simp_all add: replace_tiny_pivots_loop_def)

lemma factor_phase2_F11:
  assumes "dim_sep f \<noteq> 0"
  shows "F11 (factor_phase2 K eps Asize opts f)
     = (if replace_tiny_pivots opts
        then replace_tiny_pivots_loop (eps * real Asize) (fst (LU K (F11 f)))
        else fst (LU K (F11 f)))"
  using assms by (simp add: factor_phase2_def Let_def split: prod.splits)

text \<open>
  C5. With the replace-tiny-pivots option on, after the LU factorization of \<open>F11\<close> every
  diagonal entry of modulus below \<open>thresh = eps * A.size()\<close> is replaced by \<open>- thresh\<close>
  when its real part is negative and by \<open>thresh\<close> otherwise, a value of modulus exactly
  \<open>thresh\<close>; diagonal entries of modulus at least \<open>thresh\<close> are unchanged; afterwards
  every diagonal entry has modulus at least \<open>thresh\<close>.
\<close>

theorem tiny_pivot_replacement:
  assumes "0 < eps" and "replace_tiny_pivots opts" and "dim_sep f \<noteq> 0"
  shows "\<forall>i < nrows (fst (LU K (F11 f))).
           (cmod (entry (fst (LU K (F11 f))) i i) < eps * real Asize \<longrightarrow>
              entry (F11 (factor_phase2 K eps Asize opts f)) i i
                = of_real (if Re (entry (fst (LU K (F11 f))) i i) < 0
                           then - (eps * real Asize) else eps * real Asize)
            \<and> cmod (entry (F11 (factor_phase2 K eps Asize opts f)) i i) = eps * real Asize)
         \<and> (eps * real Asize \<le> cmod (entry (fst (LU K (F11 f))) i i) \<longrightarrow>
              entry (F11 (factor_phase2 K eps Asize opts f)) i i = entry (fst (LU K (F11 f))) i i)
         \<and> eps * real Asize \<le> cmod (entry (F11 (factor_phase2 K eps Asize opts f)) i i)"
proof (intro allI impI)
  fix i assume i: "i < nrows (fst (LU K (F11 f)))"
  have t: "0 \<le> eps * real Asize" using assms(1) by simp
  have F: "F11 (factor_phase2 K eps Asize opts f)
     = replace_tiny_pivots_loop (eps * real Asize) (fst (LU K (F11 f)))"
    using factor_phase2_F11[OF assms(3)] assms(2) by simp
  show "(cmod (entry (fst (LU K (F11 f))) i i) < eps * real Asize \<longrightarrow>
              entry (F11 (factor_phase2 K eps Asize opts f)) i i
                = of_real (if Re (entry (fst (LU K (F11 f))) i i) < 0
                           then - (eps * real Asize) else eps * real Asize)
            \<and> cmod (entry (F11 (factor_phase2 K eps Asize opts f)) i i) = eps * real Asize)
         \<and> (eps * real Asize \<le> cmod (entry (fst (LU K (F11 f))) i i) \<longrightarrow>
              entry (F11 (factor_phase2 K eps Asize opts f)) i i = entry (fst (LU K (F11 f))) i i)
         \<and> eps * real Asize \<le> cmod (entry (F11 (factor_phase2 K eps Asize opts f)) i i)"
    unfolding F replace_tiny_pivots_loop_entry using i t
    by (auto simp: norm_of_real simp del: of_real_mult of_real_minus)
qed


theorem tiny_pivot_replacement_witness:
  "(0::real) < 1 / 8
   \<and> entry (F11 (factor_phase2
        \<lparr>LU = (\<lambda>M. (M, [])), laswp = (\<lambda>p b X. X), trsm = (\<lambda>s u t d a A B. B)\<rparr> (1 / 8) 4
        \<lparr>replace_tiny_pivots = True\<rparr>
        \<lparr>dim_sep = 2, dim_upd = 0,
          F11 = \<lparr>nrows = 2, ncols = 2, entry = (\<lambda>i j. if i = 0 then - (1 / 4) else 3)\<rparr>,
          F12 = DenseM 2 0, F21 = DenseM 0 2, F22 = DenseM 0 0, piv = []\<rparr>)) 0 0 = - (1 / 2)
   \<and> entry (F11 (factor_phase2
        \<lparr>LU = (\<lambda>M. (M, [])), laswp = (\<lambda>p b X. X), trsm = (\<lambda>s u t d a A B. B)\<rparr> (1 / 8) 4
        \<lparr>replace_tiny_pivots = True\<rparr>
        \<lparr>dim_sep = 2, dim_upd = 0,
          F11 = \<lparr>nrows = 2, ncols = 2, entry = (\<lambda>i j. if i = 0 then - (1 / 4) else 3)\<rparr>,
          F12 = DenseM 2 0, F21 = DenseM 0 2, F22 = DenseM 0 0, piv = []\<rparr>)) 1 1 = 3"
  using tiny_pivot_replacement[of "1 / 8" "\<lparr>replace_tiny_pivots = True\<rparr>"
        "\<lparr>dim_sep = 2, dim_upd = 0,
          F11 = \<lparr>nrows = 2, ncols = 2, entry = (\<lambda>i j. if i = 0 then - (1 / 4) else 3)\<rparr>,
          F12 = DenseM 2 0, F21 = DenseM 0 2, F22 = DenseM 0 0, piv = []\<rparr>"
        "\<lparr>LU = (\<lambda>M. (M, [])), laswp = (\<lambda>p b X. X), trsm = (\<lambda>s u t d a A B. B)\<rparr>" 4]
  by (simp add: less_2_cases_iff norm_divide)


lemma unit_lower_inj:
  fixes L :: "nat \<Rightarrow> nat \<Rightarrow> 'a::comm_ring_1"
  assumes diag: "\<And>i. L i i = 1" and up: "\<And>i k. i < k \<Longrightarrow> L i k = 0"
    and eq: "\<And>i. i < n \<Longrightarrow> (\<Sum>k < n. L i k * x k) = (\<Sum>k < n. L i k * y k)"
  shows "i < n \<Longrightarrow> x i = y i"
proof (induction i rule: less_induct)
  case (less i)
  have split: "(\<Sum>k < n. L i k * z k) = (\<Sum>k < i. L i k * z k) + z i" for z
  proof -
    have "(\<Sum>k < n. L i k * z k) = (\<Sum>k \<in> {0 ..< Suc i}. L i k * z k) + (\<Sum>k \<in> {Suc i ..< n}. L i k * z k)"
      unfolding lessThan_atLeast0 using less.prems
      by (intro sum.atLeastLessThan_concat[symmetric]) auto
    moreover have "(\<Sum>k \<in> {Suc i ..< n}. L i k * z k) = 0"
      by (rule sum.neutral) (simp add: up)
    ultimately show ?thesis by (simp add: diag lessThan_atLeast0)
  qed
  have "(\<Sum>k < i. L i k * x k) = (\<Sum>k < i. L i k * y k)"
    using less.IH less.prems by (intro sum.cong) auto
  with eq[OF less.prems] split[of x] split[of y] show ?case by simp
qed

lemma sum_assoc3:
  fixes A :: "nat \<Rightarrow> nat \<Rightarrow> 'a::comm_ring_1"
  shows "(\<Sum>k < n. A i k * (\<Sum>a < m. B k a * v a)) = (\<Sum>a < m. (\<Sum>k < n. A i k * B k a) * v a)"
proof -
  have "(\<Sum>k < n. A i k * (\<Sum>a < m. B k a * v a)) = (\<Sum>k < n. \<Sum>a < m. A i k * B k a * v a)"
    by (simp add: sum_distrib_left mult.assoc)
  also have "\<dots> = (\<Sum>a < m. \<Sum>k < n. A i k * B k a * v a)"
    by (rule sum.swap)
  also have "\<dots> = (\<Sum>a < m. (\<Sum>k < n. A i k * B k a) * v a)"
    by (simp add: sum_distrib_right)
  finally show ?thesis .
qed

lemma schur_algebra:
  fixes L U :: "nat \<Rightarrow> nat \<Rightarrow> 'a::comm_ring_1"
  assumes diag: "\<And>i. L i i = 1" and up: "\<And>i k. i < k \<Longrightarrow> L i k = 0"
    and pi: "\<And>i. i < n \<Longrightarrow> \<pi> i < n"
    and tl: "\<And>i. i < n \<Longrightarrow> (\<Sum>k < n. L i k * y k) = b (\<pi> i)"
    and tr: "\<And>a. a < n \<Longrightarrow> (\<Sum>k < n. z k * U k a) = c a"
    and inv: "\<And>i l. i < n \<Longrightarrow> l < n \<Longrightarrow>
                (\<Sum>a < n. (\<Sum>k < n. L i k * U k a) * Ainv a l) = (if \<pi> i = l then 1 else 0)"
  shows "(\<Sum>k < n. z k * y k) = (\<Sum>a < n. \<Sum>l < n. c a * Ainv a l * b l)"
proof -
  define v where "v a = (\<Sum>l < n. Ainv a l * b l)" for a
  define w where "w k = (\<Sum>a < n. U k a * v a)" for k
  define M where "M i a = (\<Sum>k < n. L i k * U k a)" for i a
  have Lw: "(\<Sum>k < n. L i k * w k) = b (\<pi> i)" if i: "i < n" for i
  proof -
    have "(\<Sum>k < n. L i k * w k) = (\<Sum>a < n. (\<Sum>k < n. L i k * U k a) * v a)"
      unfolding w_def by (rule sum_assoc3)
    also have "\<dots> = (\<Sum>a < n. M i a * v a)"
      by (simp add: M_def)
    also have "\<dots> = (\<Sum>l < n. (\<Sum>a < n. M i a * Ainv a l) * b l)"
      unfolding v_def by (rule sum_assoc3)
    also have "\<dots> = (\<Sum>l < n. (if \<pi> i = l then 1 else 0) * b l)"
      using inv[OF i] by (intro sum.cong) (auto simp: M_def)
    also have "\<dots> = b (\<pi> i)"
      using pi[OF i] by (simp add: if_distrib[of "\<lambda>x. x * _"] sum.delta cong: if_cong)
    finally show ?thesis .
  qed
  have wy: "w k = y k" if "k < n" for k
  proof (rule unit_lower_inj[of L n w y, OF diag up _ that])
    fix i assume "i < n"
    then show "(\<Sum>k < n. L i k * w k) = (\<Sum>k < n. L i k * y k)"
      using Lw[of i] tl[of i] by simp
  qed
  have "(\<Sum>k < n. z k * y k) = (\<Sum>k < n. z k * w k)"
    using wy by (intro sum.cong) auto
  also have "\<dots> = (\<Sum>a < n. (\<Sum>k < n. z k * U k a) * v a)"
    unfolding w_def by (rule sum_assoc3)
  also have "\<dots> = (\<Sum>a < n. c a * v a)"
    using tr by (intro sum.cong) auto
  also have "\<dots> = (\<Sum>a < n. \<Sum>l < n. c a * Ainv a l * b l)"
    unfolding v_def by (simp add: sum_distrib_left mult.assoc)
  finally show ?thesis .
qed


lemma factor_phase2_blocks:
  assumes "dim_sep f \<noteq> 0" and "dim_upd f \<noteq> 0"
  shows "piv (factor_phase2 K eps Asize opts f) = snd (LU K (F11 f))"
    and "F12 (factor_phase2 K eps Asize opts f)
          = trsm K Side_L UpLo_L Trans_N Diag_U 1 (F11 (factor_phase2 K eps Asize opts f))
              (laswp K (snd (LU K (F11 f))) True (F12 f))"
    and "F21 (factor_phase2 K eps Asize opts f)
          = trsm K Side_R UpLo_U Trans_N Diag_N 1 (F11 (factor_phase2 K eps Asize opts f)) (F21 f)"
    and "F22 (factor_phase2 K eps Asize opts f)
          = gemm cnj Trans_N Trans_N (- 1) (F21 (factor_phase2 K eps Asize opts f))
              (F12 (factor_phase2 K eps Asize opts f)) 1 (F22 f)"
  using assms by (simp_all add: factor_phase2_def Let_def split: prod.splits)

lemma gemm_NN_entry:
  "i < nrows C \<Longrightarrow> j < ncols C \<Longrightarrow>
   entry (gemm cj Trans_N Trans_N (- 1) A B 1 C) i j
     = entry C i j - (\<Sum>k < ncols A. entry A i k * entry B k j)"
  by (simp add: gemm_def op_entry_def op_cols_def)

lemma gemm_dims:
  "nrows (gemm cj ta tb alpha A B beta C) = nrows C"
  "ncols (gemm cj ta tb alpha A B beta C) = ncols C"
  by (simp_all add: gemm_def)

lemma example_lapack_contract: "lapack_contract example_lapack 1 (\<lambda>pv i. i)"
  by (simp add: lapack_contract_def example_lapack_def LU_product_def unit_lower_def upper_def)



lemma replace_tiny_pivots_loop_same:
  assumes "\<forall>k < nrows M. thresh \<le> cmod (entry M k k)"
  shows "entry (replace_tiny_pivots_loop thresh M) a b = entry M a b"
  using assms by (auto simp: replace_tiny_pivots_loop_entry)

lemma LU_product_cong:
  assumes "\<And>a b. entry T a b = entry T' a b"
  shows "LU_product T n i j = LU_product T' n i j"
  by (simp add: LU_product_def unit_lower_def upper_def assms cong: if_cong)

lemma lapack_contract_LU:
  assumes "lapack_contract K n perm" and "nrows M = n" and "ncols M = n"
  shows "nrows (fst (LU K M)) = n" and "ncols (fst (LU K M)) = n"
    and "i < n \<Longrightarrow> perm (snd (LU K M)) i < n"
    and "i < n \<Longrightarrow> j < n \<Longrightarrow>
           LU_product (fst (LU K M)) n i j = entry M (perm (snd (LU K M)) i) j"
proof -
  from assms have
    "nrows (fst (LU K M)) = n \<and> ncols (fst (LU K M)) = n
         \<and> (\<forall>i < n. perm (snd (LU K M)) i < n)
         \<and> (\<forall>i < n. \<forall>j < n.
               LU_product (fst (LU K M)) n i j = entry M (perm (snd (LU K M)) i) j)"
    unfolding lapack_contract_def by (elim conjE allE[of _ M]) simp
  then show "nrows (fst (LU K M)) = n" and "ncols (fst (LU K M)) = n"
    and "i < n \<Longrightarrow> perm (snd (LU K M)) i < n"
    and "i < n \<Longrightarrow> j < n \<Longrightarrow>
           LU_product (fst (LU K M)) n i j = entry M (perm (snd (LU K M)) i) j"
    by simp_all
qed

lemma lapack_contract_laswp:
  assumes "lapack_contract K n perm" and "nrows M = n" and "ncols M = n" and "nrows X = n"
  shows "nrows (laswp K (snd (LU K M)) True X) = n"
    and "ncols (laswp K (snd (LU K M)) True X) = ncols X"
    and "i < n \<Longrightarrow> j < ncols X \<Longrightarrow>
           entry (laswp K (snd (LU K M)) True X) i j = entry X (perm (snd (LU K M)) i) j"
proof -
  from assms(1) have "\<forall>M X. nrows M = n \<and> ncols M = n \<and> nrows X = n \<longrightarrow>
           nrows (laswp K (snd (LU K M)) True X) = n
         \<and> ncols (laswp K (snd (LU K M)) True X) = ncols X
         \<and> (\<forall>i < n. \<forall>j < ncols X.
               entry (laswp K (snd (LU K M)) True X) i j = entry X (perm (snd (LU K M)) i) j)"
    unfolding lapack_contract_def by (elim conjE)
  with assms(2-4) have "nrows (laswp K (snd (LU K M)) True X) = n
         \<and> ncols (laswp K (snd (LU K M)) True X) = ncols X
         \<and> (\<forall>i < n. \<forall>j < ncols X.
               entry (laswp K (snd (LU K M)) True X) i j = entry X (perm (snd (LU K M)) i) j)"
    by (elim allE[of _ M] allE[of _ X]) simp
  then show "nrows (laswp K (snd (LU K M)) True X) = n"
    and "ncols (laswp K (snd (LU K M)) True X) = ncols X"
    and "i < n \<Longrightarrow> j < ncols X \<Longrightarrow>
           entry (laswp K (snd (LU K M)) True X) i j = entry X (perm (snd (LU K M)) i) j"
    by simp_all
qed

lemma lapack_contract_left:
  assumes "lapack_contract K n perm" and "nrows T = n" and "ncols T = n" and "nrows B = n"
    and "i < n" and "j < ncols B"
  shows "(\<Sum>k < n. unit_lower T i k * entry (trsm K Side_L UpLo_L Trans_N Diag_U 1 T B) k j)
           = entry B i j"
proof -
  from assms(1) have "\<forall>T B. nrows T = n \<and> ncols T = n \<and> nrows B = n \<longrightarrow>
           (\<forall>i < n. \<forall>j < ncols B.
              (\<Sum>k < n. unit_lower T i k
                         * entry (trsm K Side_L UpLo_L Trans_N Diag_U 1 T B) k j) = entry B i j)"
    unfolding lapack_contract_def by (elim conjE)
  with assms(2-6) show ?thesis
    by (elim allE[of _ T] allE[of _ B]) simp
qed

lemma lapack_contract_right:
  assumes "lapack_contract K n perm" and "nrows T = n" and "ncols T = n" and "ncols B = n"
    and "\<forall>k < n. entry T k k \<noteq> 0"
  shows "ncols (trsm K Side_R UpLo_U Trans_N Diag_N 1 T B) = n"
    and "i < nrows B \<Longrightarrow> j < n \<Longrightarrow>
           (\<Sum>k < n. entry (trsm K Side_R UpLo_U Trans_N Diag_N 1 T B) i k * upper T k j)
             = entry B i j"
proof -
  from assms(1) have "\<forall>T B. nrows T = n \<and> ncols T = n \<and> ncols B = n
           \<and> (\<forall>k < n. entry T k k \<noteq> 0) \<longrightarrow>
           ncols (trsm K Side_R UpLo_U Trans_N Diag_N 1 T B) = n
         \<and> (\<forall>i < nrows B. \<forall>j < n.
              (\<Sum>k < n. entry (trsm K Side_R UpLo_U Trans_N Diag_N 1 T B) i k * upper T k j)
                = entry B i j)"
    unfolding lapack_contract_def by (elim conjE)
  with assms(2-5) have "ncols (trsm K Side_R UpLo_U Trans_N Diag_N 1 T B) = n
         \<and> (\<forall>i < nrows B. \<forall>j < n.
              (\<Sum>k < n. entry (trsm K Side_R UpLo_U Trans_N Diag_N 1 T B) i k * upper T k j)
                = entry B i j)"
    by (elim allE[of _ T] allE[of _ B]) simp
  then show "ncols (trsm K Side_R UpLo_U Trans_N Diag_N 1 T B) = n"
    and "i < nrows B \<Longrightarrow> j < n \<Longrightarrow>
           (\<Sum>k < n. entry (trsm K Side_R UpLo_U Trans_N Diag_N 1 T B) i k * upper T k j)
             = entry B i j"
    by simp_all
qed

lemma factor_phase2_update:
  assumes sep: "dim_sep f \<noteq> 0" and upd: "dim_upd f \<noteq> 0"
    and c: "lapack_contract K (dim_sep f) perm" and fd: "front_dims f"
    and nz: "\<forall>k < dim_sep f. entry (F11 (factor_phase2 K eps Asize opts f)) k k \<noteq> 0"
    and inv: "\<forall>i < dim_sep f. \<forall>l < dim_sep f.
               (\<Sum>a < dim_sep f. LU_product (F11 (factor_phase2 K eps Asize opts f)) (dim_sep f) i a
                                  * Ainv a l)
                 = (if perm (snd (LU K (F11 f))) i = l then 1 else 0)"
    and i: "i < dim_upd f" and j: "j < dim_upd f"
  shows "entry (F22 (factor_phase2 K eps Asize opts f)) i j
           = entry (F22 f) i j
             - (\<Sum>a < dim_sep f. \<Sum>l < dim_sep f. entry (F21 f) i a * Ainv a l * entry (F12 f) l j)"
proof -
  define f' where "f' = factor_phase2 K eps Asize opts f"
  define n where "n = dim_sep f"
  define lu where "lu = fst (LU K (F11 f))"
  define pv where "pv = snd (LU K (F11 f))"
  define X where "X = laswp K pv True (F12 f)"
  note b = factor_phase2_blocks[OF sep upd, of K eps Asize opts, folded f'_def]
  note c' = c[folded n_def]
  have F11': "F11 f' = (if replace_tiny_pivots opts
                      then replace_tiny_pivots_loop (eps * real Asize) lu else lu)"
    unfolding f'_def lu_def by (rule factor_phase2_F11[OF sep])
  from fd have d: "nrows (F11 f) = n" "ncols (F11 f) = n" "nrows (F12 f) = n"
      "ncols (F12 f) = dim_upd f" "nrows (F21 f) = dim_upd f" "ncols (F21 f) = n"
      "nrows (F22 f) = dim_upd f" "ncols (F22 f) = dim_upd f"
    by (simp_all add: front_dims_def n_def)
  note l = lapack_contract_LU[OF c' d(1,2), folded lu_def pv_def]
  have T: "nrows (F11 f') = n" "ncols (F11 f') = n"
    by (simp_all add: F11' replace_tiny_pivots_loop_dims l(1,2))
  note x = lapack_contract_laswp[OF c' d(1,2,3), folded pv_def X_def]
  have F12': "F12 f' = trsm K Side_L UpLo_L Trans_N Diag_U 1 (F11 f') X"
    by (simp add: b(2) X_def pv_def)
  have F21': "F21 f' = trsm K Side_R UpLo_U Trans_N Diag_N 1 (F11 f') (F21 f)"
    by (rule b(3))
  from nz have nz': "\<forall>k < n. entry (F11 f') k k \<noteq> 0" by (simp add: f'_def n_def)
  note r = lapack_contract_right[OF c' T d(6) nz', folded F21']
  have ent: "entry (F22 f') i j
      = entry (F22 f) i j - (\<Sum>k < n. entry (F21 f') i k * entry (F12 f') k j)"
    using i j d(7,8) r(1) by (subst b(4)) (simp add: gemm_NN_entry)
  have "(\<Sum>k < n. entry (F21 f') i k * entry (F12 f') k j)
        = (\<Sum>a < n. \<Sum>l < n. entry (F21 f) i a * Ainv a l * entry (F12 f) l j)"
  proof (rule schur_algebra[where L = "unit_lower (F11 f')" and U = "upper (F11 f')"
        and \<pi> = "perm pv"])
    show "unit_lower (F11 f') i i = 1" for i by (simp add: unit_lower_def)
    show "unit_lower (F11 f') i k = 0" if "i < k" for i k using that by (simp add: unit_lower_def)
    show "perm pv i < n" if "i < n" for i by (rule l(3)[OF that])
    show "(\<Sum>k < n. unit_lower (F11 f') i k * entry (F12 f') k j) = entry (F12 f) (perm pv i) j"
      if "i < n" for i
      using lapack_contract_left[OF c' T x(1) that, of j] x(3)[OF that, of j] j x(2) d(4)
      by (simp add: F12' X_def)
    show "(\<Sum>k < n. entry (F21 f') i k * upper (F11 f') k a) = entry (F21 f) i a"
      if "a < n" for a using r(2)[OF _ that, of i] i d(5) by simp
    show "(\<Sum>a < n. (\<Sum>k < n. unit_lower (F11 f') i k * upper (F11 f') k a) * Ainv a l)
            = (if perm pv i = l then 1 else 0)"
      if "i < n" "l < n" for i l
      using inv that by (simp add: LU_product_def f'_def n_def pv_def)
  qed
  with ent show ?thesis by (simp add: f'_def n_def)
qed


text \<open>
  C2, as amended. For a dense front with \<open>dim_sep > 0\<close> and \<open>dim_upd > 0\<close>,
  \<^verbatim>\<open>factor_phase2\<close> performs, in this order: the pivoted LU factorization of \<open>F11\<close>,
  the optional replacement of the tiny pivots in the stored factors, the row
  interchanges and the unit-lower-triangular solve on \<open>F12\<close>, the upper-triangular solve
  on \<open>F21\<close>, and one \<^verbatim>\<open>gemm\<close> that subtracts the product of the two solved blocks from
  \<open>F22\<close>, which stays in the front with its dimensions. When the kernels meet their
  contract and no stored pivot is zero, the new \<open>F22\<close> is \<open>F22 - F21 G F12\<close> for every
  right inverse \<open>G\<close> of the matrix \<open>P\<^sup>t L U\<close> that the stored factors, after the
  replacement, are the factors of. When the option is off, or no pivot has a modulus
  below the threshold, that matrix is \<open>F11\<close> and the new \<open>F22\<close> is the Schur complement
  \<open>F22 - F21 F11\<^sup>-\<^sup>1 F12\<close>.
\<close>

theorem factor_phase2_schur:
  assumes "dim_sep f \<noteq> 0" and "dim_upd f \<noteq> 0"
  shows "(let lu_piv = LU K (F11 f);
              F11' = (if replace_tiny_pivots opts
                      then replace_tiny_pivots_loop (eps * real Asize) (fst lu_piv)
                      else fst lu_piv);
              F12' = trsm K Side_L UpLo_L Trans_N Diag_U 1 F11' (laswp K (snd lu_piv) True (F12 f));
              F21' = trsm K Side_R UpLo_U Trans_N Diag_N 1 F11' (F21 f);
              f' = factor_phase2 K eps Asize opts f
          in F11 f' = F11' \<and> piv f' = snd lu_piv \<and> F12 f' = F12' \<and> F21 f' = F21'
           \<and> F22 f' = gemm cnj Trans_N Trans_N (- 1) F21' F12' 1 (F22 f)
           \<and> nrows (F22 f') = nrows (F22 f) \<and> ncols (F22 f') = ncols (F22 f)
           \<and> (\<forall>i < nrows (F22 f). \<forall>j < ncols (F22 f).
                 entry (F22 f') i j
                   = entry (F22 f) i j - (\<Sum>k < ncols F21'. entry F21' i k * entry F12' k j))
           \<and> (\<forall>perm Ainv.
                 lapack_contract K (dim_sep f) perm \<and> front_dims f
                 \<and> (\<forall>k < dim_sep f. entry F11' k k \<noteq> 0)
                 \<and> (\<forall>i < dim_sep f. \<forall>l < dim_sep f.
                       (\<Sum>a < dim_sep f. LU_product F11' (dim_sep f) i a * Ainv a l)
                         = (if perm (snd lu_piv) i = l then 1 else 0))
                 \<longrightarrow> (\<forall>i < dim_upd f. \<forall>j < dim_upd f.
                        entry (F22 f') i j
                          = entry (F22 f) i j
                            - (\<Sum>a < dim_sep f. \<Sum>l < dim_sep f.
                                 entry (F21 f) i a * Ainv a l * entry (F12 f) l j)))
           \<and> (\<forall>perm Ainv.
                 lapack_contract K (dim_sep f) perm \<and> front_dims f
                 \<and> (\<forall>k < dim_sep f. entry F11' k k \<noteq> 0)
                 \<and> (\<not> replace_tiny_pivots opts
                      \<or> (\<forall>k < dim_sep f. eps * real Asize \<le> cmod (entry (fst lu_piv) k k)))
                 \<and> (\<forall>i < dim_sep f. \<forall>l < dim_sep f.
                       (\<Sum>a < dim_sep f. entry (F11 f) i a * Ainv a l) = (if i = l then 1 else 0))
                 \<longrightarrow> (\<forall>i < dim_upd f. \<forall>j < dim_upd f.
                        entry (F22 f') i j
                          = entry (F22 f) i j
                            - (\<Sum>a < dim_sep f. \<Sum>l < dim_sep f.
                                 entry (F21 f) i a * Ainv a l * entry (F12 f) l j))))"
proof -
  let ?f' = "factor_phase2 K eps Asize opts f"
  let ?n = "dim_sep f"
  let ?lu = "fst (LU K (F11 f))"
  let ?pv = "snd (LU K (F11 f))"
  let ?F11' = "if replace_tiny_pivots opts
               then replace_tiny_pivots_loop (eps * real Asize) ?lu else ?lu"
  let ?F12' = "trsm K Side_L UpLo_L Trans_N Diag_U 1 ?F11' (laswp K ?pv True (F12 f))"
  let ?F21' = "trsm K Side_R UpLo_U Trans_N Diag_N 1 ?F11' (F21 f)"
  note b = factor_phase2_blocks[OF assms, of K eps Asize opts]
  have F: "F11 ?f' = ?F11'"
    by (rule factor_phase2_F11[OF assms(1)])
  have p: "piv ?f' = ?pv" by (rule b(1))
  have F12': "F12 ?f' = ?F12'" using b(2) by (simp only: F)
  have F21': "F21 ?f' = ?F21'" using b(3) by (simp only: F)
  have F22': "F22 ?f' = gemm cnj Trans_N Trans_N (- 1) ?F21' ?F12' 1 (F22 f)"
    using b(4) by (simp only: F12' F21')
  have dm: "nrows (F22 ?f') = nrows (F22 f)" "ncols (F22 ?f') = ncols (F22 f)"
    by (simp_all only: F22' gemm_dims)
  have ent: "entry (F22 ?f') i j
      = entry (F22 f) i j - (\<Sum>k < ncols ?F21'. entry ?F21' i k * entry ?F12' k j)"
    if "i < nrows (F22 f)" "j < ncols (F22 f)" for i j
    using that by (subst F22') (rule gemm_NN_entry)
  have gen: "entry (F22 ?f') i j
      = entry (F22 f) i j - (\<Sum>a < ?n. \<Sum>l < ?n. entry (F21 f) i a * Ainv a l * entry (F12 f) l j)"
    if h: "lapack_contract K ?n perm \<and> front_dims f \<and> (\<forall>k < ?n. entry ?F11' k k \<noteq> 0)
         \<and> (\<forall>i < ?n. \<forall>l < ?n. (\<Sum>a < ?n. LU_product ?F11' ?n i a * Ainv a l)
                         = (if perm ?pv i = l then 1 else 0))"
      and ij: "i < dim_upd f" "j < dim_upd f" for perm Ainv i j
  proof (rule factor_phase2_update[OF assms _ _ _ _ ij])
    show "lapack_contract K ?n perm" "front_dims f" using h by blast+
    show "\<forall>k < ?n. entry (F11 ?f') k k \<noteq> 0" using h unfolding F by blast
    show "\<forall>i < ?n. \<forall>l < ?n. (\<Sum>a < ?n. LU_product (F11 ?f') ?n i a * Ainv a l)
                         = (if perm ?pv i = l then 1 else 0)" using h unfolding F by blast
  qed
  have same: "entry (F22 ?f') i j
      = entry (F22 f) i j - (\<Sum>a < ?n. \<Sum>l < ?n. entry (F21 f) i a * Ainv a l * entry (F12 f) l j)"
    if h: "lapack_contract K ?n perm \<and> front_dims f \<and> (\<forall>k < ?n. entry ?F11' k k \<noteq> 0)
         \<and> (\<not> replace_tiny_pivots opts \<or> (\<forall>k < ?n. eps * real Asize \<le> cmod (entry ?lu k k)))
         \<and> (\<forall>i < ?n. \<forall>l < ?n. (\<Sum>a < ?n. entry (F11 f) i a * Ainv a l) = (if i = l then 1 else 0))"
      and ij: "i < dim_upd f" "j < dim_upd f" for perm Ainv i j
  proof -
    from h have c: "lapack_contract K ?n perm" and fd: "front_dims f"
      and nz: "\<forall>k < ?n. entry ?F11' k k \<noteq> 0"
      and nr: "\<not> replace_tiny_pivots opts \<or> (\<forall>k < ?n. eps * real Asize \<le> cmod (entry ?lu k k))"
      and inv: "\<forall>i < ?n. \<forall>l < ?n. (\<Sum>a < ?n. entry (F11 f) i a * Ainv a l) = (if i = l then 1 else 0)"
      by blast+
    from fd have d: "nrows (F11 f) = ?n" "ncols (F11 f) = ?n"
      by (simp_all add: front_dims_def)
    note l = lapack_contract_LU[OF c d]
    have e: "entry ?F11' a b = entry ?lu a b" for a b
      using nr l(1) by (auto simp: replace_tiny_pivots_loop_same)
    have q: "(\<Sum>a < ?n. LU_product ?F11' ?n i a * Ainv a l) = (if perm ?pv i = l then 1 else 0)"
      if "i < ?n" "l < ?n" for i l
    proof -
      have "(\<Sum>a < ?n. LU_product ?F11' ?n i a * Ainv a l)
          = (\<Sum>a < ?n. entry (F11 f) (perm ?pv i) a * Ainv a l)"
        using l(4)[OF that(1)] LU_product_cong[of ?F11' ?lu, OF e]
        by (intro sum.cong) auto
      also have "\<dots> = (if perm ?pv i = l then 1 else 0)"
        using inv l(3)[OF that(1)] that(2) by simp
      finally show ?thesis .
    qed
    show ?thesis
    proof (rule gen[OF _ ij, of perm Ainv], intro conjI allI impI)
      show "lapack_contract K ?n perm" "front_dims f" by (rule c, rule fd)
      show "entry ?F11' k k \<noteq> 0" if "k < ?n" for k using nz that by blast
      show "(\<Sum>a < ?n. LU_product ?F11' ?n i a * Ainv a l) = (if perm ?pv i = l then 1 else 0)"
        if "i < ?n" "l < ?n" for i l by (rule q[OF that])
    qed
  qed
  show ?thesis
    unfolding Let_def
  proof (intro conjI allI impI)
    show "F11 ?f' = ?F11'" by (rule F)
    show "piv ?f' = ?pv" by (rule p)
    show "F12 ?f' = ?F12'" by (rule F12')
    show "F21 ?f' = ?F21'" by (rule F21')
    show "F22 ?f' = gemm cnj Trans_N Trans_N (- 1) ?F21' ?F12' 1 (F22 f)" by (rule F22')
    show "nrows (F22 ?f') = nrows (F22 f)" "ncols (F22 ?f') = ncols (F22 f)" by (rule dm)+
    show "entry (F22 ?f') i j
           = entry (F22 f) i j - (\<Sum>k < ncols ?F21'. entry ?F21' i k * entry ?F12' k j)"
      if "i < nrows (F22 f)" "j < ncols (F22 f)" for i j by (rule ent[OF that])
    show "entry (F22 ?f') i j
      = entry (F22 f) i j - (\<Sum>a < ?n. \<Sum>l < ?n. entry (F21 f) i a * Ainv a l * entry (F12 f) l j)"
      if "lapack_contract K ?n perm \<and> front_dims f \<and> (\<forall>k < ?n. entry ?F11' k k \<noteq> 0)
         \<and> (\<forall>i < ?n. \<forall>l < ?n. (\<Sum>a < ?n. LU_product ?F11' ?n i a * Ainv a l)
                         = (if perm ?pv i = l then 1 else 0))"
        "i < dim_upd f" "j < dim_upd f" for perm Ainv i j by (rule gen[OF that])
    show "entry (F22 ?f') i j
      = entry (F22 f) i j - (\<Sum>a < ?n. \<Sum>l < ?n. entry (F21 f) i a * Ainv a l * entry (F12 f) l j)"
      if "lapack_contract K ?n perm \<and> front_dims f \<and> (\<forall>k < ?n. entry ?F11' k k \<noteq> 0)
         \<and> (\<not> replace_tiny_pivots opts \<or> (\<forall>k < ?n. eps * real Asize \<le> cmod (entry ?lu k k)))
         \<and> (\<forall>i < ?n. \<forall>l < ?n. (\<Sum>a < ?n. entry (F11 f) i a * Ainv a l) = (if i = l then 1 else 0))"
        "i < dim_upd f" "j < dim_upd f" for perm Ainv i j by (rule same[OF that])
  qed
qed


lemmas front_ex_defs = example_front_def example_lapack_def factor_phase2_def
  replace_tiny_pivots_loop_def set_entry_def gemm_def op_entry_def op_cols_def

text \<open>
  The claim C2 as it stands fails when a pivot is replaced. On the front of order one
  with \<open>F11 = 1/16\<close>, \<open>F12 = 4\<close>, \<open>F21 = 6\<close>, \<open>F22 = 20\<close>, the threshold
  \<open>1/8 * 4 = 1/2\<close> and the option on, the kernels meet their contract, the Schur
  complement \<open>F22 - F21 F11\<^sup>-\<^sup>1 F12\<close> is \<open>20 - 6 * 16 * 4 = -364\<close>, and
  \<^verbatim>\<open>factor_phase2\<close> leaves \<open>20 - (6 / (1/2)) * 4 = -28\<close> in \<open>F22\<close>.
\<close>

theorem factor_phase2_schur_counterexample:
  "lapack_contract example_lapack 1 (\<lambda>pv i. i) \<and> front_dims example_front
   \<and> entry (F11 example_front) 0 0 * 16 = 1
   \<and> entry (F22 example_front) 0 0
       - entry (F21 example_front) 0 0 * 16 * entry (F12 example_front) 0 0 = - 364
   \<and> entry (F22 (factor_phase2 example_lapack (1 / 8) 4 \<lparr>replace_tiny_pivots = True\<rparr>
                    example_front)) 0 0 = - 28"
proof -
  have "front_dims example_front" by (simp add: front_dims_def example_front_def)
  moreover have "entry (F11 example_front) 0 0 * 16 = 1"
    "entry (F22 example_front) 0 0
       - entry (F21 example_front) 0 0 * 16 * entry (F12 example_front) 0 0 = - 364"
    by (simp_all add: example_front_def)
  moreover have "entry (F22 (factor_phase2 example_lapack (1 / 8) 4 \<lparr>replace_tiny_pivots = True\<rparr>
                    example_front)) 0 0 = - 28"
    by (simp add: front_ex_defs Let_def norm_divide)
  ultimately show ?thesis using example_lapack_contract by simp
qed

theorem factor_phase2_schur_witness:
  "dim_sep example_front \<noteq> 0 \<and> dim_upd example_front \<noteq> 0
   \<and> lapack_contract example_lapack (dim_sep example_front) (\<lambda>pv i. i)
   \<and> front_dims example_front
   \<and> entry (F11 (factor_phase2 example_lapack (1 / 8) 4 \<lparr>replace_tiny_pivots = True\<rparr>
                    example_front)) 0 0 = 1 / 2
   \<and> LU_product (F11 (factor_phase2 example_lapack (1 / 8) 4 \<lparr>replace_tiny_pivots = True\<rparr>
                    example_front)) 1 0 0 * 2 = 1
   \<and> entry (F22 (factor_phase2 example_lapack (1 / 8) 4 \<lparr>replace_tiny_pivots = True\<rparr>
                    example_front)) 0 0
       = entry (F22 example_front) 0 0
         - entry (F21 example_front) 0 0 * 2 * entry (F12 example_front) 0 0
   \<and> entry (F22 (factor_phase2 example_lapack (1 / 8) 4 \<lparr>replace_tiny_pivots = False\<rparr>
                    example_front)) 0 0
       = entry (F22 example_front) 0 0
         - entry (F21 example_front) 0 0 * 16 * entry (F12 example_front) 0 0"
proof -
  have s: "dim_sep example_front = 1" "dim_upd example_front = 1"
    by (simp_all add: example_front_def)
  have fd: "front_dims example_front" by (simp add: front_dims_def example_front_def)
  have c: "lapack_contract example_lapack (dim_sep example_front) (\<lambda>pv i. i)"
    using example_lapack_contract by (simp add: s)
  have e: "entry (F11 (factor_phase2 example_lapack (1 / 8) 4 \<lparr>replace_tiny_pivots = True\<rparr>
                    example_front)) 0 0 = 1 / 2"
    by (simp add: front_ex_defs Let_def norm_divide)
  have e': "entry (F11 (factor_phase2 example_lapack (1 / 8) 4 \<lparr>replace_tiny_pivots = False\<rparr>
                    example_front)) 0 0 = 1 / 16"
    by (simp add: front_ex_defs Let_def)
  have l: "LU_product (F11 (factor_phase2 example_lapack (1 / 8) 4 \<lparr>replace_tiny_pivots = True\<rparr>
                    example_front)) 1 0 0 * 2 = 1"
    by (simp add: LU_product_def unit_lower_def upper_def e)
  have i: "entry (F11 example_front) 0 0 * 16 = 1" by (simp add: example_front_def)
  have nz: "dim_sep example_front \<noteq> 0" "dim_upd example_front \<noteq> 0" by (simp_all add: s)
  note t = factor_phase2_schur[OF nz, of example_lapack _ "1 / 8" 4, unfolded Let_def,
      THEN conjunct2, THEN conjunct2, THEN conjunct2, THEN conjunct2, THEN conjunct2,
      THEN conjunct2, THEN conjunct2, THEN conjunct2]
  note g = t[of "\<lparr>replace_tiny_pivots = True\<rparr>", THEN conjunct1, rule_format,
      of "\<lambda>pv i. i" "\<lambda>a l. 2" 0 0]
  note h = t[of "\<lparr>replace_tiny_pivots = False\<rparr>", THEN conjunct2, rule_format,
      of "\<lambda>pv i. i" "\<lambda>a l. 16" 0 0]
  have a: "entry (F22 (factor_phase2 example_lapack (1 / 8) 4 \<lparr>replace_tiny_pivots = True\<rparr>
                    example_front)) 0 0
       = entry (F22 example_front) 0 0
         - entry (F21 example_front) 0 0 * 2 * entry (F12 example_front) 0 0"
  proof -
    have F: "F11 (factor_phase2 example_lapack (1 / 8) 4 \<lparr>replace_tiny_pivots = True\<rparr>
                    example_front)
           = replace_tiny_pivots_loop (1 / 2) (fst (LU example_lapack (F11 example_front)))"
      using factor_phase2_F11[OF nz(1), of example_lapack "1 / 8" 4 "\<lparr>replace_tiny_pivots = True\<rparr>"]
      by simp
    show ?thesis using g c fd e[unfolded F] l[unfolded F] by (simp add: s)
  qed
  have b: "entry (F22 (factor_phase2 example_lapack (1 / 8) 4 \<lparr>replace_tiny_pivots = False\<rparr>
                    example_front)) 0 0
       = entry (F22 example_front) 0 0
         - entry (F21 example_front) 0 0 * 16 * entry (F12 example_front) 0 0"
  proof -
    have F: "F11 (factor_phase2 example_lapack (1 / 8) 4 \<lparr>replace_tiny_pivots = False\<rparr>
                    example_front)
           = fst (LU example_lapack (F11 example_front))"
      using factor_phase2_F11[OF nz(1), of example_lapack "1 / 8" 4 "\<lparr>replace_tiny_pivots = False\<rparr>"]
      by simp
    show ?thesis using h c fd e'[unfolded F] i by (simp add: s)
  qed
  from nz c fd e l a b show ?thesis by simp
qed


section \<open>Extend-add\<close>

lemma add_entry_simps [simp]:
  "nrows (add_entry M i j v) = nrows M"
  "ncols (add_entry M i j v) = ncols M"
  "entry (add_entry M i j v) a b = (if a = i \<and> b = j then entry M i j + v else entry M a b)"
  by (simp_all add: add_entry_def set_entry_def)

lemma fold_add_entry:
  fixes M :: "'a::comm_monoid_add DenseMatrix"
  shows "entry (fold (\<lambda>r M. add_entry M (fi r) j (fv r)) rs M) a b
       = entry M a b + (\<Sum>r\<leftarrow>rs. if fi r = a \<and> j = b then fv r else 0)"
  by (induction rs arbitrary: M) (simp_all add: add.assoc)

lemma fold_add_entry_nrows:
  "nrows (fold (\<lambda>r M. add_entry M (fi r) j (fv r)) rs M) = nrows M"
  by (induction rs arbitrary: M) simp_all

lemma fold_cols_add_entry:
  fixes M :: "'a::comm_monoid_add DenseMatrix"
  shows "entry (fold (\<lambda>c M. if P c then fold (\<lambda>r M. add_entry M (fi r) (fj c) (fv r c)) rs M else M) cs M) a b
       = entry M a b + (\<Sum>c\<leftarrow>cs. if P c then (\<Sum>r\<leftarrow>rs. if fi r = a \<and> fj c = b then fv r c else 0) else 0)"
  by (induction cs arbitrary: M) (simp_all add: fold_add_entry add.assoc)

lemma fold_field11:
  "fold (\<lambda>r pa. pa\<lparr>paF11 := add_entry (paF11 pa) (fi r) j (fv r)\<rparr>) rs pa
     = pa\<lparr>paF11 := fold (\<lambda>r M. add_entry M (fi r) j (fv r)) rs (paF11 pa)\<rparr>"
  by (induction rs arbitrary: pa) simp_all
lemma fold_field12:
  "fold (\<lambda>r pa. pa\<lparr>paF12 := add_entry (paF12 pa) (fi r) j (fv r)\<rparr>) rs pa
     = pa\<lparr>paF12 := fold (\<lambda>r M. add_entry M (fi r) j (fv r)) rs (paF12 pa)\<rparr>"
  by (induction rs arbitrary: pa) simp_all
lemma fold_field21:
  "fold (\<lambda>r pa. pa\<lparr>paF21 := add_entry (paF21 pa) (fi r) j (fv r)\<rparr>) rs pa
     = pa\<lparr>paF21 := fold (\<lambda>r M. add_entry M (fi r) j (fv r)) rs (paF21 pa)\<rparr>"
  by (induction rs arbitrary: pa) simp_all
lemma fold_field22:
  "fold (\<lambda>r pa. pa\<lparr>paF22 := add_entry (paF22 pa) (fi r) j (fv r)\<rparr>) rs pa
     = pa\<lparr>paF22 := fold (\<lambda>r M. add_entry M (fi r) j (fv r)) rs (paF22 pa)\<rparr>"
  by (induction rs arbitrary: pa) simp_all

lemma extend_add_column_blocks:
  "paF11 (extend_add_column I u n pdsep C c pa)
     = (if I ! c < pdsep then fold (\<lambda>r M. add_entry M (unat (I ! r)) (unat (I ! c)) (entry C r c)) [0 ..< u] (paF11 pa)
        else paF11 pa)"
  "paF21 (extend_add_column I u n pdsep C c pa)
     = (if I ! c < pdsep then fold (\<lambda>r M. add_entry M (unat (I ! r - pdsep)) (unat (I ! c)) (entry C r c)) [u ..< n] (paF21 pa)
        else paF21 pa)"
  "paF12 (extend_add_column I u n pdsep C c pa)
     = (if \<not> I ! c < pdsep then fold (\<lambda>r M. add_entry M (unat (I ! r)) (unat (I ! c - pdsep)) (entry C r c)) [0 ..< u] (paF12 pa)
        else paF12 pa)"
  "paF22 (extend_add_column I u n pdsep C c pa)
     = (if \<not> I ! c < pdsep then fold (\<lambda>r M. add_entry M (unat (I ! r - pdsep)) (unat (I ! c - pdsep)) (entry C r c)) [u ..< n] (paF22 pa)
        else paF22 pa)"
  by (simp_all add: extend_add_column_def Let_def fold_field11 fold_field12 fold_field21 fold_field22)

lemma fold_extend_add_column_blocks:
  "paF11 (fold (extend_add_column I u n pdsep C) cs pa)
     = fold (\<lambda>c M. if I ! c < pdsep then fold (\<lambda>r M. add_entry M (unat (I ! r)) (unat (I ! c)) (entry C r c)) [0 ..< u] M else M) cs (paF11 pa)"
  "paF21 (fold (extend_add_column I u n pdsep C) cs pa)
     = fold (\<lambda>c M. if I ! c < pdsep then fold (\<lambda>r M. add_entry M (unat (I ! r - pdsep)) (unat (I ! c)) (entry C r c)) [u ..< n] M else M) cs (paF21 pa)"
  "paF12 (fold (extend_add_column I u n pdsep C) cs pa)
     = fold (\<lambda>c M. if \<not> I ! c < pdsep then fold (\<lambda>r M. add_entry M (unat (I ! r)) (unat (I ! c - pdsep)) (entry C r c)) [0 ..< u] M else M) cs (paF12 pa)"
  "paF22 (fold (extend_add_column I u n pdsep C) cs pa)
     = fold (\<lambda>c M. if \<not> I ! c < pdsep then fold (\<lambda>r M. add_entry M (unat (I ! r - pdsep)) (unat (I ! c - pdsep)) (entry C r c)) [u ..< n] M else M) cs (paF22 pa)"
  by (induction cs arbitrary: pa; simp add: extend_add_column_blocks)+

lemma extend_add_to_dense_extend_add_column:
  "fst (extend_add_to_dense I u child pa)
     = fold (extend_add_column I u (dim_upd child) (of_nat (nrows (paF11 pa))) (F22 child)) [0 ..< dim_upd child] pa"
  by (simp add: extend_add_to_dense_def Let_def)

lemma upt_2: "[0 ..< 2] = [0, 1]" "[0 ..< 1] = [0]" "[1 ..< 2] = [1]" "[Suc 0 ..< 2] = [1]" "[0 ..< Suc 0] = [0]"
  by (simp_all add: upt_rec)

lemma sum_list_double_set:
  fixes f :: "nat \<Rightarrow> nat \<Rightarrow> 'a::comm_monoid_add"
  assumes "u \<le> n"
  shows "(\<Sum>c\<leftarrow>[0 ..< n]. if P c then (\<Sum>r\<leftarrow>[0 ..< u]. if Q r c then f r c else 0) else 0)
       = (\<Sum>(r, c) \<in> {(r, c). r < n \<and> c < n \<and> r < u \<and> P c \<and> Q r c}. f r c)"
proof -
  have "(\<Sum>c\<leftarrow>[0 ..< n]. if P c then (\<Sum>r\<leftarrow>[0 ..< u]. if Q r c then f r c else 0) else 0)
      = (\<Sum>c \<in> {0 ..< n}. \<Sum>r \<in> {0 ..< u}. if P c \<and> Q r c then f r c else 0)"
    by (simp add: interv_sum_list_conv_sum_set_nat cong: if_cong)
       (rule sum.cong, simp, auto intro: sum.cong)
  also have "\<dots> = (\<Sum>(c, r) \<in> {0 ..< n} \<times> {0 ..< u}. if P c \<and> Q r c then f r c else 0)"
    by (simp add: sum.cartesian_product)
  also have "\<dots> = (\<Sum>(c, r) \<in> {(c, r). r < n \<and> c < n \<and> r < u \<and> P c \<and> Q r c}. f r c)"
    using assms by (intro sum.mono_neutral_cong_right) (auto split: if_splits)
  also have "\<dots> = (\<Sum>(r, c) \<in> {(r, c). r < n \<and> c < n \<and> r < u \<and> P c \<and> Q r c}. f r c)"
    by (rule sum.reindex_bij_witness[where i = "\<lambda>(r, c). (c, r)" and j = "\<lambda>(c, r). (r, c)"]) auto
  finally show ?thesis .
qed

lemma sum_list_double_set':
  fixes f :: "nat \<Rightarrow> nat \<Rightarrow> 'a::comm_monoid_add"
  shows "(\<Sum>c\<leftarrow>[0 ..< n]. if P c then (\<Sum>r\<leftarrow>[u ..< n]. if Q r c then f r c else 0) else 0)
       = (\<Sum>(r, c) \<in> {(r, c). r < n \<and> c < n \<and> u \<le> r \<and> P c \<and> Q r c}. f r c)"
proof -
  have "(\<Sum>c\<leftarrow>[0 ..< n]. if P c then (\<Sum>r\<leftarrow>[u ..< n]. if Q r c then f r c else 0) else 0)
      = (\<Sum>c \<in> {0 ..< n}. \<Sum>r \<in> {u ..< n}. if P c \<and> Q r c then f r c else 0)"
    by (simp add: interv_sum_list_conv_sum_set_nat cong: if_cong)
       (rule sum.cong, simp, auto intro: sum.cong)
  also have "\<dots> = (\<Sum>(c, r) \<in> {0 ..< n} \<times> {u ..< n}. if P c \<and> Q r c then f r c else 0)"
    by (simp add: sum.cartesian_product)
  also have "\<dots> = (\<Sum>(c, r) \<in> {(c, r). r < n \<and> c < n \<and> u \<le> r \<and> P c \<and> Q r c}. f r c)"
    by (intro sum.mono_neutral_cong_right) (auto split: if_splits)
  also have "\<dots> = (\<Sum>(r, c) \<in> {(r, c). r < n \<and> c < n \<and> u \<le> r \<and> P c \<and> Q r c}. f r c)"
    by (rule sum.reindex_bij_witness[where i = "\<lambda>(r, c). (c, r)" and j = "\<lambda>(c, r). (r, c)"]) auto
  finally show ?thesis .
qed

text \<open>
  C1. Let \<open>I\<close> and \<open>upd2sep\<close> be the result of \<^verbatim>\<open>upd_to_parent\<close>, with \<open>upd2sep\<close> the
  number of leading entries of \<open>I\<close> below the parent's \<open>dim_sep\<close> (the rows of its
  \<open>F11\<close>). Then \<^verbatim>\<open>extend_add_to_dense\<close> adds every entry \<open>F22_child(r, c)\<close> to
  exactly one block of the parent, chosen by \<open>pr = I[r]\<close> and \<open>pc = I[c]\<close>: to \<open>F11\<close> at
  \<open>(pr, pc)\<close> when both are below \<open>dim_sep\<close>, to \<open>F21\<close> at \<open>(pr - dim_sep, pc)\<close> when
  only \<open>pc\<close> is, to \<open>F12\<close> at \<open>(pr, pc - dim_sep)\<close> when only \<open>pr\<close> is, and to \<open>F22\<close> at
  \<open>(pr - dim_sep, pc - dim_sep)\<close> otherwise; every entry of each parent block is its
  previous value plus the sum of the child entries mapped to it.
\<close>

theorem extend_add_quadrants:
  fixes pa :: "'a::comm_monoid_add parent_blocks"
  assumes "length I = dim_upd child" and "upd2sep \<le> dim_upd child"
    and "\<forall>r < dim_upd child. (r < upd2sep) = (I ! r < of_nat (nrows (paF11 pa)))"
  shows "(\<forall>i j. entry (paF11 (fst (extend_add_to_dense I upd2sep child pa))) i j
            = entry (paF11 pa) i j
              + (\<Sum>(r, c) \<in> {(r, c). r < dim_upd child \<and> c < dim_upd child
                     \<and> I ! r < of_nat (nrows (paF11 pa)) \<and> I ! c < of_nat (nrows (paF11 pa))
                     \<and> unat (I ! r) = i \<and> unat (I ! c) = j}. entry (F22 child) r c))
       \<and> (\<forall>i j. entry (paF21 (fst (extend_add_to_dense I upd2sep child pa))) i j
            = entry (paF21 pa) i j
              + (\<Sum>(r, c) \<in> {(r, c). r < dim_upd child \<and> c < dim_upd child
                     \<and> \<not> I ! r < of_nat (nrows (paF11 pa)) \<and> I ! c < of_nat (nrows (paF11 pa))
                     \<and> unat (I ! r - of_nat (nrows (paF11 pa))) = i \<and> unat (I ! c) = j}.
                   entry (F22 child) r c))
       \<and> (\<forall>i j. entry (paF12 (fst (extend_add_to_dense I upd2sep child pa))) i j
            = entry (paF12 pa) i j
              + (\<Sum>(r, c) \<in> {(r, c). r < dim_upd child \<and> c < dim_upd child
                     \<and> I ! r < of_nat (nrows (paF11 pa)) \<and> \<not> I ! c < of_nat (nrows (paF11 pa))
                     \<and> unat (I ! r) = i \<and> unat (I ! c - of_nat (nrows (paF11 pa))) = j}.
                   entry (F22 child) r c))
       \<and> (\<forall>i j. entry (paF22 (fst (extend_add_to_dense I upd2sep child pa))) i j
            = entry (paF22 pa) i j
              + (\<Sum>(r, c) \<in> {(r, c). r < dim_upd child \<and> c < dim_upd child
                     \<and> \<not> I ! r < of_nat (nrows (paF11 pa)) \<and> \<not> I ! c < of_nat (nrows (paF11 pa))
                     \<and> unat (I ! r - of_nat (nrows (paF11 pa))) = i
                     \<and> unat (I ! c - of_nat (nrows (paF11 pa))) = j}.
                   entry (F22 child) r c))"
proof -
  define n where "n = dim_upd child"
  define pd :: size_t where "pd = of_nat (nrows (paF11 pa))"
  have split: "\<And>r. r < n \<Longrightarrow> (r < upd2sep) = (I ! r < pd)"
    using assms(3) by (simp add: n_def pd_def)
  have u: "upd2sep \<le> n" using assms(2) by (simp add: n_def)
  have s11: "{(r, c). r < n \<and> c < n \<and> r < upd2sep \<and> I ! c < pd \<and> unat (I ! r) = i \<and> unat (I ! c) = j}
      = {(r, c). r < n \<and> c < n \<and> I ! r < pd \<and> I ! c < pd \<and> unat (I ! r) = i \<and> unat (I ! c) = j}"
    for i j using split by auto
  have s21: "{(r, c). r < n \<and> c < n \<and> upd2sep \<le> r \<and> I ! c < pd \<and> unat (I ! r - pd) = i \<and> unat (I ! c) = j}
      = {(r, c). r < n \<and> c < n \<and> \<not> I ! r < pd \<and> I ! c < pd \<and> unat (I ! r - pd) = i \<and> unat (I ! c) = j}"
    for i j using split by (auto simp: not_less[symmetric])
  have s12: "{(r, c). r < n \<and> c < n \<and> r < upd2sep \<and> \<not> I ! c < pd \<and> unat (I ! r) = i \<and> unat (I ! c - pd) = j}
      = {(r, c). r < n \<and> c < n \<and> I ! r < pd \<and> \<not> I ! c < pd \<and> unat (I ! r) = i \<and> unat (I ! c - pd) = j}"
    for i j using split by auto
  have s22: "{(r, c). r < n \<and> c < n \<and> upd2sep \<le> r \<and> \<not> I ! c < pd \<and> unat (I ! r - pd) = i \<and> unat (I ! c - pd) = j}
      = {(r, c). r < n \<and> c < n \<and> \<not> I ! r < pd \<and> \<not> I ! c < pd \<and> unat (I ! r - pd) = i \<and> unat (I ! c - pd) = j}"
    for i j using split by (auto simp: not_less[symmetric])
  have e11: "entry (paF11 (fst (extend_add_to_dense I upd2sep child pa))) i j
            = entry (paF11 pa) i j
              + (\<Sum>(r, c) \<in> {(r, c). r < n \<and> c < n \<and> I ! r < pd \<and> I ! c < pd
                     \<and> unat (I ! r) = i \<and> unat (I ! c) = j}. entry (F22 child) r c)" for i j
    unfolding extend_add_to_dense_extend_add_column fold_extend_add_column_blocks fold_cols_add_entry
      n_def[symmetric] pd_def[symmetric]
    using sum_list_double_set[OF u, where P = "\<lambda>c. I ! c < pd" and Q = "\<lambda>r c. unat (I ! r) = i \<and> unat (I ! c) = j"
        and f = "\<lambda>r c. entry (F22 child) r c"]
    by (simp add: s11)
  have e21: "entry (paF21 (fst (extend_add_to_dense I upd2sep child pa))) i j
            = entry (paF21 pa) i j
              + (\<Sum>(r, c) \<in> {(r, c). r < n \<and> c < n \<and> \<not> I ! r < pd \<and> I ! c < pd
                     \<and> unat (I ! r - pd) = i \<and> unat (I ! c) = j}. entry (F22 child) r c)" for i j
    unfolding extend_add_to_dense_extend_add_column fold_extend_add_column_blocks fold_cols_add_entry
      n_def[symmetric] pd_def[symmetric]
    using sum_list_double_set'[where n = n and u = upd2sep and P = "\<lambda>c. I ! c < pd" and Q = "\<lambda>r c. unat (I ! r - pd) = i \<and> unat (I ! c) = j"
        and f = "\<lambda>r c. entry (F22 child) r c"]
    by (simp add: s21)
  have e12: "entry (paF12 (fst (extend_add_to_dense I upd2sep child pa))) i j
            = entry (paF12 pa) i j
              + (\<Sum>(r, c) \<in> {(r, c). r < n \<and> c < n \<and> I ! r < pd \<and> \<not> I ! c < pd
                     \<and> unat (I ! r) = i \<and> unat (I ! c - pd) = j}. entry (F22 child) r c)" for i j
    unfolding extend_add_to_dense_extend_add_column fold_extend_add_column_blocks fold_cols_add_entry
      n_def[symmetric] pd_def[symmetric]
    using sum_list_double_set[OF u, where P = "\<lambda>c. \<not> I ! c < pd" and Q = "\<lambda>r c. unat (I ! r) = i \<and> unat (I ! c - pd) = j"
        and f = "\<lambda>r c. entry (F22 child) r c"]
    by (simp add: s12)
  have e22: "entry (paF22 (fst (extend_add_to_dense I upd2sep child pa))) i j
            = entry (paF22 pa) i j
              + (\<Sum>(r, c) \<in> {(r, c). r < n \<and> c < n \<and> \<not> I ! r < pd \<and> \<not> I ! c < pd
                     \<and> unat (I ! r - pd) = i \<and> unat (I ! c - pd) = j}. entry (F22 child) r c)" for i j
    unfolding extend_add_to_dense_extend_add_column fold_extend_add_column_blocks fold_cols_add_entry
      n_def[symmetric] pd_def[symmetric]
    using sum_list_double_set'[where n = n and u = upd2sep and P = "\<lambda>c. \<not> I ! c < pd" and Q = "\<lambda>r c. unat (I ! r - pd) = i \<and> unat (I ! c - pd) = j"
        and f = "\<lambda>r c. entry (F22 child) r c"]
    by (simp add: s22)
  show ?thesis
    unfolding n_def[symmetric] pd_def[symmetric]
    using e11 e21 e12 e22 by blast
qed


theorem extend_add_quadrants_witness: 
  "length [1, 3 :: size_t] = dim_upd \<lparr>dim_sep = 1, dim_upd = 2, F11 = DenseM 1 1, F12 = DenseM 1 2,
        F21 = DenseM 2 1, F22 = \<lparr>nrows = 2, ncols = 2, entry = (\<lambda>r c. 10 * int (2 * r + c + 1))\<rparr>, piv = []\<rparr>
   \<and> ((0::nat) < 1) = ([1, 3 :: size_t] ! 0 < of_nat (nrows (DenseM 2 2 :: int DenseMatrix)))
   \<and> ((1::nat) < 1) = ([1, 3 :: size_t] ! 1 < of_nat (nrows (DenseM 2 2 :: int DenseMatrix)))
   \<and> (let pa' = fst (extend_add_to_dense [1, 3] 1
          \<lparr>dim_sep = 1, dim_upd = 2, F11 = DenseM 1 1, F12 = DenseM 1 2,
        F21 = DenseM 2 1, F22 = \<lparr>nrows = 2, ncols = 2, entry = (\<lambda>r c. 10 * int (2 * r + c + 1))\<rparr>, piv = []\<rparr>
          \<lparr>paF11 = DenseM 2 2, paF12 = DenseM 2 2, paF21 = DenseM 2 2, paF22 = DenseM 2 2\<rparr>)
       in entry (paF11 pa') 1 1 = 10 \<and> entry (paF12 pa') 1 1 = 20
        \<and> entry (paF21 pa') 1 1 = 30 \<and> entry (paF22 pa') 1 1 = 40 \<and> entry (paF11 pa') 0 0 = 0)"
proof -
  have h: "\<forall>r < 2. (r < 1) = ([1, 3 :: size_t] ! r < of_nat (nrows (DenseM 2 2 :: int DenseMatrix)))"
    by (simp add: less_2_cases_iff DenseM_def)
  have v: "(let pa' = fst (extend_add_to_dense [1, 3] 1
          \<lparr>dim_sep = 1, dim_upd = 2, F11 = DenseM 1 1, F12 = DenseM 1 2,
        F21 = DenseM 2 1, F22 = \<lparr>nrows = 2, ncols = 2, entry = (\<lambda>r c. 10 * int (2 * r + c + 1))\<rparr>, piv = []\<rparr>
          \<lparr>paF11 = DenseM 2 2, paF12 = DenseM 2 2, paF21 = DenseM 2 2, paF22 = DenseM 2 2\<rparr>)
       in entry (paF11 pa') 1 1 = 10 \<and> entry (paF12 pa') 1 1 = 20
        \<and> entry (paF21 pa') 1 1 = 30 \<and> entry (paF22 pa') 1 1 = (40::int) \<and> entry (paF11 pa') 0 0 = 0)"
    by (simp add: extend_add_to_dense_def extend_add_column_def DenseM_def Let_def upt_2)
  show ?thesis
    using extend_add_quadrants[of "[1, 3]" "\<lparr>dim_sep = 1, dim_upd = 2, F11 = DenseM 1 1, F12 = DenseM 1 2,
        F21 = DenseM 2 1, F22 = \<lparr>nrows = 2, ncols = 2, entry = (\<lambda>r c. 10 * int (2 * r + c + 1))\<rparr>, piv = []\<rparr>" 1
        "\<lparr>paF11 = DenseM 2 2, paF12 = DenseM 2 2, paF21 = DenseM 2 2, paF22 = DenseM 2 2\<rparr>"] h v
    by (simp add: DenseM_def)
qed


section \<open>The HSS partition tree\<close>

lemma size_t_of_int_small: "0 \<le> x \<Longrightarrow> x < 2 ^ 31 \<Longrightarrow> size_t_of_int x = nat x"
  by (simp add: size_t_of_int_def)

lemma HSSMatrix_ctor_total:
  assumes "1 \<le> size_t_of_int (leaf_size opts)"
  shows "\<exists>t. HSSMatrix_ctor m n opts = Some t \<and> rows (node t) = m \<and> cols (node t) = n
           \<and> (\<forall>d \<in> set (leaves t). rows d \<le> size_t_of_int (leaf_size opts)
                                    \<and> cols d \<le> size_t_of_int (leaf_size opts))"
proof (induction "m + n" arbitrary: m n rule: less_induct)
  case less
  let ?L = "size_t_of_int (leaf_size opts)"
  show ?case
  proof (cases "m > ?L \<or> n > ?L")
    case False
    then show ?thesis
      by (subst HSSMatrix_ctor.simps) (simp add: HSSMatrixBase_def)
  next
    case True
    then have big: "2 \<le> m \<or> 2 \<le> n" using assms by linarith
    have "m div 2 + n div 2 < m + n" using big by linarith
    from less.hyps[OF this] obtain c0 where
      c0: "HSSMatrix_ctor (m div 2) (n div 2) opts = Some c0"
      "\<forall>d \<in> set (leaves c0). rows d \<le> ?L \<and> cols d \<le> ?L" by blast
    have "(m - m div 2) + (n - n div 2) < m + n" using big by linarith
    from less.hyps[OF this] obtain c1 where
      c1: "HSSMatrix_ctor (m - m div 2) (n - n div 2) opts = Some c1"
      "\<forall>d \<in> set (leaves c1). rows d \<le> ?L \<and> cols d \<le> ?L" by blast
    show ?thesis
      using True c0 c1
      by (subst HSSMatrix_ctor.simps) (auto simp: HSSMatrixBase_def)
  qed
qed

text \<open>
  C7. For all \<open>m\<close> and \<open>n\<close> and every leaf size \<open>L \<ge> 1\<close> (an \<^verbatim>\<open>int\<close>), the recursive
  constructor \<^verbatim>\<open>HSSMatrix(m, n, opts)\<close> returns: it splits into children of sizes
  \<open>(m div 2, n div 2)\<close> and \<open>(m - m div 2, n - n div 2)\<close> while \<open>m > L\<close> or \<open>n > L\<close>, and
  every leaf of the tree it builds has at most \<open>L\<close> rows and at most \<open>L\<close> columns.
\<close>

theorem HSSMatrix_ctor_terminates:
  assumes "1 \<le> leaf_size opts" and "leaf_size opts < 2 ^ 31"
  shows "\<exists>t. HSSMatrix_ctor m n opts = Some t \<and> rows (node t) = m \<and> cols (node t) = n
           \<and> (\<forall>d \<in> set (leaves t). rows d \<le> nat (leaf_size opts)
                                    \<and> cols d \<le> nat (leaf_size opts))"
proof -
  have "size_t_of_int (leaf_size opts) = nat (leaf_size opts)"
    using assms by (intro size_t_of_int_small) auto
  moreover have "1 \<le> nat (leaf_size opts)" using assms by simp
  ultimately show ?thesis using HSSMatrix_ctor_total[of opts m n] by simp
qed

theorem HSSMatrix_ctor_terminates_witness:
  "\<exists>t. HSSMatrix_ctor 5 5 \<lparr>rel_tol = 1 / 100, abs_tol = 1 / 10 ^ 8, max_rank = 5000,
                            leaf_size = 2, opt_p = 10, opt_dd = 8\<rparr> = Some t
       \<and> map rows (leaves t) = [2, 1, 2] \<and> map cols (leaves t) = [2, 1, 2]"
  using HSSMatrix_ctor_terminates[of "\<lparr>rel_tol = 1 / 100, abs_tol = 1 / 10 ^ 8, max_rank = 5000,
                            leaf_size = 2, opt_p = 10, opt_dd = 8\<rparr>" 5 5]
  by (simp add: HSSMatrix_ctor.simps size_t_of_int_def HSSMatrixBase_def)

section \<open>Dense reconstruction and the block form\<close>

lemma write_view_simps [simp]:
  "nrows (write_view A i0 j0 W) = nrows A"
  "ncols (write_view A i0 j0 W) = ncols A"
  "entry (write_view A i0 j0 W) i j =
     (if i0 \<le> i \<and> i < i0 + nrows W \<and> j0 \<le> j \<and> j < j0 + ncols W
      then entry W (i - i0) (j - j0) else entry A i j)"
  by (simp_all add: write_view_def)

lemma view_simps [simp]:
  "nrows (view m n A i0 j0) = m"
  "ncols (view m n A i0 j0) = n"
  "entry (view m n A i0 j0) i j = entry A (i0 + i) (j0 + j)"
  by (simp_all add: view_def)

lemma DenseM_simps [simp]:
  "nrows (DenseM m n) = m"
  "ncols (DenseM m n) = n"
  "entry (DenseM m n) i j = 0"
  by (simp_all add: DenseM_def)

lemma gemm_simps [simp]:
  "nrows (gemm cj ta tb alpha A B beta C) = nrows C"
  "ncols (gemm cj ta tb alpha A B beta C) = ncols C"
  by (simp_all add: gemm_def)

lemma gemm_NN_1_0:
  "entry (gemm id Trans_N Trans_N 1 A B 0 C) i j
     = (if i < nrows C \<and> j < ncols C then (\<Sum>k < ncols A. entry A i k * entry B k j)
        else entry C i j)"
  by (simp add: gemm_def op_entry_def op_cols_def)

lemma gemm_NC_1_0:
  "entry (gemm id Trans_N Trans_C 1 A B 0 C) i j
     = (if i < nrows C \<and> j < ncols C then (\<Sum>k < ncols A. entry A i k * entry B j k)
        else entry C i j)"
  by (simp add: gemm_def op_entry_def op_cols_def)

lemma DenseMatrix_eqI:
  "nrows A = nrows B \<Longrightarrow> ncols A = ncols B \<Longrightarrow> (\<And>i j. entry A i j = entry B i j) \<Longrightarrow>
   (A :: 'a DenseMatrix) = B"
  by (cases A, cases B) (auto intro!: ext)

lemma dense_recursive_frame:
  assumes "shapes_fit t" and "dense_recursive t off r A = (A', U', V')"
  shows "nrows A' = nrows A \<and> ncols A' = ncols A
       \<and> (\<forall>i j. \<not> (fst off \<le> i \<and> i < fst off + rows (node t)
                    \<and> snd off \<le> j \<and> j < snd off + cols (node t)) \<longrightarrow> entry A' i j = entry A i j)"
  using assms
proof (induction t arbitrary: off r A A' U' V')
  case (Leaf d)
  then show ?case by (auto simp: copy_def)
next
  case (Node d c0 c1)
  obtain A1 U0 V0 where r0: "dense_recursive c0 off False A = (A1, U0, V0)"
    by (metis prod_cases3)
  obtain A2 U1 V1 where r1: "dense_recursive c1 (fst off + rows (node c0), snd off + cols (node c0)) False A1 = (A2, U1, V1)"
    by (metis prod_cases3)
  from Node.prems(1) have sf: "shapes_fit c0" "shapes_fit c1"
    and rs: "rows d = rows (node c0) + rows (node c1)" "cols d = cols (node c0) + cols (node c1)"
    by auto
  note f0 = Node.IH(1)[OF sf(1) r0]
  note f1 = Node.IH(2)[OF sf(2) r1]
  from Node.prems(2) have A': "A' = write_view
         (write_view A2 (fst off) (snd off + cols (node c0))
            (gemm id Trans_N Trans_N 1 U0
               (gemm id Trans_N Trans_C 1 (hss_B01 d) V1 0 (DenseM (nrows (hss_B01 d)) (nrows V1))) 0
               (view (rows (node c0)) (cols (node c1)) A2 (fst off) (snd off + cols (node c0)))))
         (fst off + rows (node c0)) (snd off)
         (gemm id Trans_N Trans_N 1 U1
            (gemm id Trans_N Trans_C 1 (hss_B10 d) V0 0 (DenseM (nrows (hss_B10 d)) (nrows V0))) 0
            (view (rows (node c1)) (cols (node c0))
               (write_view A2 (fst off) (snd off + cols (node c0))
                 (gemm id Trans_N Trans_N 1 U0
                   (gemm id Trans_N Trans_C 1 (hss_B01 d) V1 0 (DenseM (nrows (hss_B01 d)) (nrows V1))) 0
                   (view (rows (node c0)) (cols (node c1)) A2 (fst off) (snd off + cols (node c0)))))
               (fst off + rows (node c0)) (snd off)))"
    by (simp add: r0 r1 Let_def dims_def)
  show ?case
    unfolding A' using f0 f1 rs by (auto simp: )
qed


lemma UBVt_gemm:
  assumes "ncols Um = nrows Bm" and "j < nrows Vm"
  shows "(\<Sum>k < ncols Um. entry Um i k *
            entry (gemm id Trans_N Trans_C 1 Bm Vm 0 (DenseM (nrows Bm) (nrows Vm))) k j)
         = UBVt Um Bm Vm i j"
proof -
  have "(\<Sum>k < ncols Um. entry Um i k *
            entry (gemm id Trans_N Trans_C 1 Bm Vm 0 (DenseM (nrows Bm) (nrows Vm))) k j)
      = (\<Sum>k < ncols Um. entry Um i k * (\<Sum>l < ncols Bm. entry Bm k l * entry Vm j l))"
    using assms by (intro sum.cong) (auto simp: gemm_NC_1_0)
  also have "\<dots> = UBVt Um Bm Vm i j"
    by (simp add: UBVt_def sum_distrib_left mult.assoc)
  finally show ?thesis .
qed

lemma dense_recursive_content:
  assumes "shapes_fit t" and "dense_recursive t off r A = (A', U', V')"
  shows "(\<forall>i < rows (node t). \<forall>j < cols (node t).
            entry A' (fst off + i) (snd off + j) = block_form t i j)
       \<and> (\<not> r \<longrightarrow> U' = U_agg t \<and> V' = V_agg t)"
  using assms
proof (induction t arbitrary: off r A A' U' V')
  case (Leaf d)
  then show ?case by (auto simp: copy_def)
next
  case (Node d c0 c1)
  obtain A1 U0 V0 where r0: "dense_recursive c0 off False A = (A1, U0, V0)"
    by (metis prod_cases3)
  obtain A2 U1 V1 where r1: "dense_recursive c1 (fst off + rows (node c0), snd off + cols (node c0)) False A1 = (A2, U1, V1)"
    by (metis prod_cases3)
  from Node.prems(1) have sf: "shapes_fit c0" "shapes_fit c1"
    and rs: "rows d = rows (node c0) + rows (node c1)" "cols d = cols (node c0) + cols (node c1)"
    and b01: "nrows (hss_B01 d) = ncols (U_agg c0)" "ncols (hss_B01 d) = ncols (V_agg c1)"
    and b10: "nrows (hss_B10 d) = ncols (U_agg c1)" "ncols (hss_B10 d) = ncols (V_agg c0)"
    by auto
  from Node.IH(1)[OF sf(1) r0] have
    c0: "\<And>i j. i < rows (node c0) \<Longrightarrow> j < cols (node c0) \<Longrightarrow>
            entry A1 (fst off + i) (snd off + j) = block_form c0 i j"
    and g0: "U0 = U_agg c0" "V0 = V_agg c0" by auto
  from Node.IH(2)[OF sf(2) r1] have
    c1: "\<And>i j. i < rows (node c1) \<Longrightarrow> j < cols (node c1) \<Longrightarrow>
            entry A2 (fst off + rows (node c0) + i) (snd off + cols (node c0) + j) = block_form c1 i j"
    and g1: "U1 = U_agg c1" "V1 = V_agg c1" by auto
  from dense_recursive_frame[OF sf(2) r1] have
    f1: "\<And>i j. \<not> (fst off + rows (node c0) \<le> i \<and> i < fst off + rows (node c0) + rows (node c1)
                    \<and> snd off + cols (node c0) \<le> j \<and> j < snd off + cols (node c0) + cols (node c1))
            \<Longrightarrow> entry A2 i j = entry A1 i j" by auto
  from Node.prems(1) have nr0: "nrows (U_agg c0) = rows (node c0) \<and> nrows (V_agg c0) = cols (node c0)"
    and nr1: "nrows (U_agg c1) = rows (node c1) \<and> nrows (V_agg c1) = cols (node c1)"
    by auto
  let ?tmp01 = "gemm id Trans_N Trans_C 1 (hss_B01 d) V1 0 (DenseM (nrows (hss_B01 d)) (nrows V1))"
  let ?tmp10 = "gemm id Trans_N Trans_C 1 (hss_B10 d) V0 0 (DenseM (nrows (hss_B10 d)) (nrows V0))"
  let ?A3 = "write_view A2 (fst off) (snd off + cols (node c0))
            (gemm id Trans_N Trans_N 1 U0 ?tmp01 0
               (view (rows (node c0)) (cols (node c1)) A2 (fst off) (snd off + cols (node c0))))"
  from Node.prems(2) have A': "A' = write_view ?A3
         (fst off + rows (node c0)) (snd off)
         (gemm id Trans_N Trans_N 1 U1 ?tmp10 0
            (view (rows (node c1)) (cols (node c0)) ?A3 (fst off + rows (node c0)) (snd off)))"
    by (simp add: r0 r1 Let_def dims_def)
  have blk: "entry A' (fst off + i) (snd off + j) = block_form (Node d c0 c1) i j"
    if i: "i < rows d" and j: "j < cols d" for i j
  proof (cases "i < rows (node c0)")
    case itop: True
    show ?thesis
    proof (cases "j < cols (node c0)")
      case True
      have "entry A' (fst off + i) (snd off + j) = entry A2 (fst off + i) (snd off + j)"
        unfolding A' using itop True by simp
      also have "\<dots> = entry A1 (fst off + i) (snd off + j)"
        using itop by (intro f1) simp
      also have "\<dots> = block_form c0 i j" using itop True by (rule c0)
      finally show ?thesis using itop True by simp
    next
      case False
      then have j': "j - cols (node c0) < cols (node c1)" using j rs by simp
      have "entry A' (fst off + i) (snd off + j)
          = (\<Sum>k < ncols U0. entry U0 i k * entry ?tmp01 k (j - cols (node c0)))"
        unfolding A' using itop False j' j rs by (simp add: gemm_NN_1_0)
      also have "\<dots> = UBVt U0 (hss_B01 d) V1 i (j - cols (node c0))"
        using b01 j' nr1 by (intro UBVt_gemm) (simp_all add: g0 g1)
      finally show ?thesis using itop False by (simp add: g0 g1)
    qed
  next
    case ibot: False
    then have i': "i - rows (node c0) < rows (node c1)" using i rs by simp
    show ?thesis
    proof (cases "j < cols (node c0)")
      case True
      have "entry A' (fst off + i) (snd off + j)
          = (\<Sum>k < ncols U1. entry U1 (i - rows (node c0)) k * entry ?tmp10 k j)"
        unfolding A' using ibot True i' i rs by (simp add: gemm_NN_1_0)
      also have "\<dots> = UBVt U1 (hss_B10 d) V0 (i - rows (node c0)) j"
        using b10 True nr0 by (intro UBVt_gemm) (simp_all add: g0 g1)
      finally show ?thesis using ibot True by (simp add: g0 g1)
    next
      case False
      then have j': "j - cols (node c0) < cols (node c1)" using j rs by simp
      have "entry A' (fst off + i) (snd off + j) = entry A2 (fst off + i) (snd off + j)"
        unfolding A' using ibot False by simp
      also have "\<dots> = entry A2 (fst off + rows (node c0) + (i - rows (node c0)))
                            (snd off + cols (node c0) + (j - cols (node c0)))"
        using ibot False by simp
      also have "\<dots> = block_form c1 (i - rows (node c0)) (j - cols (node c0))"
        using i' j' by (rule c1)
      finally show ?thesis using ibot False by simp
    qed
  qed
  have gen: "U' = U_agg (Node d c0 c1) \<and> V' = V_agg (Node d c0 c1)" if "\<not> r"
  proof
    from Node.prems(2) that have U': "U' =
        (let T = DenseM (rows d) (U_rank d);
             T0 = write_view T 0 0
                    (gemm id Trans_N Trans_N 1 U0
                       (view (U_rank (node c0)) (ncols (hss_U d)) (hss_U d) 0 0) 0
                       (view (rows (node c0)) (U_rank d) T 0 0))
         in write_view T0 (rows (node c0)) 0
              (gemm id Trans_N Trans_N 1 U1
                 (view (U_rank (node c1)) (ncols (hss_U d)) (hss_U d) (U_rank (node c0)) 0) 0
                 (view (rows (node c1)) (U_rank d) T0 (rows (node c0)) 0)))"
      by (simp add: r0 r1 Let_def dims_def)
    show "U' = U_agg (Node d c0 c1)"
      unfolding U' Let_def
      by (rule DenseMatrix_eqI) (auto simp: gemm_NN_1_0 g0 g1)
    from Node.prems(2) that have V': "V' =
        (let T = DenseM (cols d) (V_rank d);
             T0 = write_view T 0 0
                    (gemm id Trans_N Trans_N 1 V0
                       (view (V_rank (node c0)) (ncols (hss_V d)) (hss_V d) 0 0) 0
                       (view (cols (node c0)) (V_rank d) T 0 0))
         in write_view T0 (cols (node c0)) 0
              (gemm id Trans_N Trans_N 1 V1
                 (view (V_rank (node c1)) (ncols (hss_V d)) (hss_V d) (V_rank (node c0)) 0) 0
                 (view (cols (node c1)) (V_rank d) T0 (cols (node c0)) 0)))"
      by (simp add: r0 r1 Let_def dims_def)
    show "V' = V_agg (Node d c0 c1)"
      unfolding V' Let_def
      by (rule DenseMatrix_eqI) (auto simp: gemm_NN_1_0 g0 g1)
  qed
  show ?case using blk gen by simp
qed

lemma dense_block_form:
  assumes "shapes_fit t" and "i < rows (node t)" and "j < cols (node t)"
  shows "entry (dense t junk) i j = block_form t i j"
proof -
  obtain A' U' V' where r: "dense_recursive t (0, 0) True
        \<lparr>nrows = rows (node t), ncols = cols (node t), entry = junk\<rparr> = (A', U', V')"
    by (metis prod_cases3)
  from dense_recursive_content[OF assms(1) r] assms(2,3) show ?thesis
    by (simp add: dense_def r)
qed


section \<open>The compression recursion\<close>

lemma state_rank_le_2 [simp]: "state_rank s \<le> 2"
  by (cases s) simp_all

lemma compute_U_V_bases_ann_keeps:
  assumes "compute_U_V_bases_ann E d w ch = Some (d', w', acc)"
  shows "rows d' = rows d \<and> cols d' = cols d \<and> hss_D d' = hss_D d
       \<and> hss_B01 d' = hss_B01 d \<and> hss_B10 d' = hss_B10 d
       \<and> U_state d' = U_state d \<and> V_state d' = V_state d"
  using assms
  by (auto simp: compute_U_V_bases_ann_def Let_def split: prod.splits if_splits)

lemma compute_U_V_bases_ann_v2_keeps:
  assumes "compute_U_V_bases_ann_v2 E d w ch = Some (d', w', acc)"
  shows "rows d' = rows d \<and> cols d' = cols d \<and> hss_D d' = hss_D d
       \<and> hss_B01 d' = hss_B01 d \<and> hss_B10 d' = hss_B10 d
       \<and> U_state d' = U_state d \<and> V_state d' = V_state d"
  using assms
  by (auto simp: compute_U_V_bases_ann_v2_def Let_def split: prod.splits if_splits)

lemma compress_tail_keeps:
  assumes "compress_tail E d w ch = Some (d', w')"
  shows "rows d' = rows d \<and> cols d' = cols d \<and> hss_D d' = hss_D d
       \<and> hss_B01 d' = hss_B01 d \<and> hss_B10 d' = hss_B10 d
       \<and> U_state d' = COMPRESSED \<and> V_state d' = COMPRESSED"
  using assms
  by (auto simp: compress_tail_def split: if_splits option.splits prod.splits
      dest!: compute_U_V_bases_ann_keeps)

lemma compress_tail_v2_keeps:
  assumes "compress_tail_v2 E d w ch = Some (d', w')"
  shows "rows d' = rows d \<and> cols d' = cols d \<and> hss_D d' = hss_D d
       \<and> hss_B01 d' = hss_B01 d \<and> hss_B10 d' = hss_B10 d
       \<and> (U_state d' = COMPRESSED \<or> U_state d' = U_state d)
       \<and> (V_state d' = COMPRESSED \<or> V_state d' = V_state d)"
  using assms
  by (auto simp: compress_tail_v2_def split: if_splits option.splits prod.splits
      dest!: compute_U_V_bases_ann_v2_keeps)

lemma states_advance_refl: "states_advance t t"
  by (induction t) simp_all

lemma compress_recursive_ann_states:
  "compress_recursive_ann E t w = Some (t', w') \<Longrightarrow> states_advance t t'"
proof (induction t arbitrary: w t' w')
  case (Leaf d)
  then show ?case
    by (auto simp: Let_def split: option.splits if_splits dest!: compress_tail_keeps)
next
  case (Node d c0 c1)
  from Node.prems obtain c0' w0 c1' w1 where
    r0: "compress_recursive_ann E c0 (fst (work_split w (dims c0))) = Some (c0', w0)"
    and r1: "compress_recursive_ann E c1 (snd (work_split w (dims c0))) = Some (c1', w1)"
    by (auto split: option.splits)
  note a0 = Node.IH(1)[OF r0] and a1 = Node.IH(2)[OF r1]
  from Node.prems show ?case
    using a0 a1
    by (auto simp: r0 r1 Let_def split: option.splits if_splits dest!: compress_tail_keeps)
qed

lemma compress_recursive_ann_v2_states:
  "compress_recursive_ann_v2 E t w = Some (t', w') \<Longrightarrow> states_advance t t'"
proof (induction t arbitrary: w t' w')
  case (Leaf d)
  then show ?case
    by (auto simp: Let_def split: option.splits if_splits dest!: compress_tail_v2_keeps)
next
  case (Node d c0 c1)
  from Node.prems obtain c0' w0 c1' w1 where
    r0: "compress_recursive_ann_v2 E c0 (fst (work_split w (dims c0))) = Some (c0', w0)"
    and r1: "compress_recursive_ann_v2 E c1 (snd (work_split w (dims c0))) = Some (c1', w1)"
    by (auto split: option.splits)
  note a0 = Node.IH(1)[OF r0] and a1 = Node.IH(2)[OF r1]
  from Node.prems show ?case
    using a0 a1
    by (auto simp: r0 r1 Let_def split: option.splits if_splits dest!: compress_tail_v2_keeps)
qed

text \<open>
  C6. In a run of the compression recursion, in either revision of the file, the
  U-state and the V-state of every node only move forward in the order UNTOUCHED,
  PARTIALLY_COMPRESSED, COMPRESSED: the tree that the recursion returns has, node by
  node, states that are those of the tree it was given or later ones.
\<close>

theorem compress_states_monotone:
  "(\<forall>t' w'. compress_recursive_ann E t w = Some (t', w') \<longrightarrow> states_advance t t')
   \<and> (\<forall>t' w'. compress_recursive_ann_v2 E t w = Some (t', w') \<longrightarrow> states_advance t t')"
  using compress_recursive_ann_states compress_recursive_ann_v2_states by blast


lemma elem_oracle_simps [simp]:
  "nrows (elem_oracle A I J B) = nrows B"
  "ncols (elem_oracle A I J B) = ncols B"
  "entry (elem_oracle A I J B) i j
     = (if i < length I \<and> j < length J then A (I ! i) (J ! j) else entry B i j)"
  by (simp_all add: elem_oracle_def)

lemma compress_recursive_ann_dims:
  "compress_recursive_ann E t w = Some (t', w') \<Longrightarrow>
   rows (node t') = rows (node t) \<and> cols (node t') = cols (node t)"
  by (cases t)
     (auto simp: Let_def split: option.splits if_splits dest!: compress_tail_keeps)

lemma compress_recursive_ann_v2_dims:
  "compress_recursive_ann_v2 E t w = Some (t', w') \<Longrightarrow>
   rows (node t') = rows (node t) \<and> cols (node t') = cols (node t)"
  by (cases t)
     (auto simp: Let_def split: option.splits if_splits dest!: compress_tail_v2_keeps)

lemma compress_recursive_ann_leaves:
  assumes "e_Aelem E = elem_oracle A" and "\<forall>d \<in> set (nodes t). is_untouched d"
    and "compress_recursive_ann E t w = Some (t', w')"
  shows "\<forall>x \<in> set (leaves_at t' (w_offset w)). leaf_is_block A x"
  using assms(2,3)
proof (induction t arbitrary: w t' w')
  case (Leaf d)
  obtain o1 o2 where o: "w_offset w = (o1, o2)" by (cases "w_offset w")
  from Leaf show ?case
    using assms(1)
    by (auto simp: Let_def leaf_is_block_def o add.commute split: option.splits
        dest!: compress_tail_keeps)
next
  case (Node d c0 c1)
  from Node.prems obtain c0' w0 c1' w1 where
    r0: "compress_recursive_ann E c0 (fst (work_split w (dims c0))) = Some (c0', w0)"
    and r1: "compress_recursive_ann E c1 (snd (work_split w (dims c0))) = Some (c1', w1)"
    by (auto split: option.splits)
  from Node.prems(1) have u: "\<forall>d \<in> set (nodes c0). is_untouched d"
      "\<forall>d \<in> set (nodes c1). is_untouched d" by auto
  note a0 = Node.IH(1)[OF u(1) r0] and a1 = Node.IH(2)[OF u(2) r1]
  have dm: "dims c0' = dims c0"
    using compress_recursive_ann_dims[OF r0] by (simp add: dims_def)
  have l: "leaves_at t' (w_offset w)
      = leaves_at c0' (w_offset w) @ leaves_at c1' (fst (w_offset w) + fst (dims c0),
                                                    snd (w_offset w) + snd (dims c0))"
    using Node.prems(2)
    by (auto simp: r0 r1 Let_def dm split: option.splits if_splits)
  show ?case
    unfolding l using a0 a1 by (auto simp: work_split_def new_work_def)
qed

lemma compress_recursive_ann_v2_leaves:
  assumes "e_Aelem E = elem_oracle A" and "\<forall>d \<in> set (nodes t). is_untouched d"
    and "compress_recursive_ann_v2 E t w = Some (t', w')"
  shows "\<forall>x \<in> set (leaves_at t' (w_offset w)). leaf_is_block A x"
  using assms(2,3)
proof (induction t arbitrary: w t' w')
  case (Leaf d)
  obtain o1 o2 where o: "w_offset w = (o1, o2)" by (cases "w_offset w")
  from Leaf show ?case
    using assms(1)
    by (auto simp: Let_def leaf_is_block_def o add.commute split: option.splits
        dest!: compress_tail_v2_keeps)
next
  case (Node d c0 c1)
  from Node.prems obtain c0' w0 c1' w1 where
    r0: "compress_recursive_ann_v2 E c0 (fst (work_split w (dims c0))) = Some (c0', w0)"
    and r1: "compress_recursive_ann_v2 E c1 (snd (work_split w (dims c0))) = Some (c1', w1)"
    by (auto split: option.splits)
  from Node.prems(1) have u: "\<forall>d \<in> set (nodes c0). is_untouched d"
      "\<forall>d \<in> set (nodes c1). is_untouched d" by auto
  note a0 = Node.IH(1)[OF u(1) r0] and a1 = Node.IH(2)[OF u(2) r1]
  have dm: "dims c0' = dims c0"
    using compress_recursive_ann_v2_dims[OF r0] by (simp add: dims_def)
  have l: "leaves_at t' (w_offset w)
      = leaves_at c0' (w_offset w) @ leaves_at c1' (fst (w_offset w) + fst (dims c0),
                                                    snd (w_offset w) + snd (dims c0))"
    using Node.prems(2)
    by (auto simp: r0 r1 Let_def dm split: option.splits if_splits)
  show ?case
    unfolding l using a0 a1 by (auto simp: work_split_def new_work_def)
qed


lemma compress_recursive_ann_compressed:
  "compress_recursive_ann E t w = Some (t', w') \<Longrightarrow> is_compressed (node t')"
proof (induction t arbitrary: w t' w')
  case (Leaf d)
  then show ?case
    by (auto simp: Let_def is_compressed_def split: option.splits dest!: compress_tail_keeps)
next
  case (Node d c0 c1)
  from Node.prems obtain c0' w0 c1' w1 where
    r0: "compress_recursive_ann E c0 (fst (work_split w (dims c0))) = Some (c0', w0)"
    and r1: "compress_recursive_ann E c1 (snd (work_split w (dims c0))) = Some (c1', w1)"
    by (auto split: option.splits)
  note a0 = Node.IH(1)[OF r0] and a1 = Node.IH(2)[OF r1]
  from Node.prems show ?case
    using a0 a1
    by (auto simp: r0 r1 Let_def is_compressed_def split: option.splits dest!: compress_tail_keeps)
qed

lemma leaf_samples_nrows:
  assumes "e_Aelem E = elem_oracle A"
  shows "nrows (w_S (compute_local_samples_ann E d w None)) = rows d"
  using assms by (simp add: compute_local_samples_ann_def Let_def sample_rows_def)

lemma compute_U_V_bases_ann_basis:
  assumes "compute_U_V_bases_ann E d w ch = Some (d', w', acc)" and "ID_row_contract E"
  shows "nrows (hss_U d') = nrows (w_S w) \<and> nrows (hss_V d') = nrows (w_S w)
       \<and> ncols (hss_U d') = U_rank d' \<and> ncols (hss_V d') = V_rank d'"
proof -
  obtain Ub Jr where id: "e_ID_row E (w_S w) (rel_tol (e_opts E) / real_of_int (w_lvl w))
          (abs_tol (e_opts E) / real_of_int (w_lvl w)) (max_rank (e_opts E)) = (Ub, Jr)"
    by (cases "e_ID_row E (w_S w) (rel_tol (e_opts E) / real_of_int (w_lvl w))
          (abs_tol (e_opts E) / real_of_int (w_lvl w)) (max_rank (e_opts E))")
  have "nrows (fst (e_ID_row E (w_S w) (rel_tol (e_opts E) / real_of_int (w_lvl w))
          (abs_tol (e_opts E) / real_of_int (w_lvl w)) (max_rank (e_opts E)))) = nrows (w_S w)"
    using assms(2) unfolding ID_row_contract_def by blast
  then have n: "nrows Ub = nrows (w_S w)" by (simp add: id)
  from assms(1) show ?thesis
    by (auto simp: compute_U_V_bases_ann_def Let_def id n split: if_splits)
qed

lemma compress_tail_leaf_basis:
  assumes "compress_tail E d w None = Some (d', w')" and "ID_row_contract E"
    and "e_Aelem E = elem_oracle A" and "w_lvl w \<noteq> 0"
  shows "nrows (hss_U d') = rows d \<and> nrows (hss_V d') = rows d
       \<and> ncols (hss_U d') = U_rank d' \<and> ncols (hss_V d') = V_rank d'"
proof -
  from assms(1,4) obtain d2 w2 acc where
    b: "compute_U_V_bases_ann E d (compute_local_samples_ann E d w None) None = Some (d2, w2, acc)"
    and d': "d' = d2\<lparr>U_state := COMPRESSED, V_state := COMPRESSED\<rparr>"
    by (auto simp: compress_tail_def split: option.splits)
  from compute_U_V_bases_ann_basis[OF b assms(2)] leaf_samples_nrows[OF assms(3), of d w]
  show ?thesis by (simp add: d')
qed

lemma compress_recursive_ann_shapes:
  assumes "e_Aelem E = elem_oracle A" and "ID_row_contract E"
    and "\<forall>d \<in> set (nodes t). is_untouched d" and "square_partition t"
    and "compress_recursive_ann E t w = Some (t', w')" and "0 \<le> w_lvl w"
  shows "shapes_fit t' \<and> (w_lvl w \<noteq> 0 \<longrightarrow> gen_ok t')"
  using assms(3-6)
proof (induction t arbitrary: w t' w')
  case (Leaf d)
  let ?d1 = "d\<lparr>hss_D := e_Aelem E (map (\<lambda>i. i + fst (w_offset w)) [0 ..< rows d])
                                   (map (\<lambda>j. j + snd (w_offset w)) [0 ..< cols d])
                                   (DenseM (rows d) (cols d))\<rparr>"
  from Leaf.prems obtain d2 where
    t: "compress_tail E ?d1 w None = Some (d2, w')" and t': "t' = Leaf d2"
    by (auto simp: Let_def split: option.splits)
  from compress_tail_keeps[OF t] have k: "rows d2 = rows d" "cols d2 = cols d"
      "hss_D d2 = hss_D ?d1" by auto
  have sf: "shapes_fit t'" using k assms(1) by (simp add: t')
  have "gen_ok t'" if "w_lvl w \<noteq> 0"
    using compress_tail_leaf_basis[OF t assms(2,1) that] k Leaf.prems(2)
    by (simp add: gen_ok_def t')
  with sf show ?case by simp
next
  case (Node d c0 c1)
  from Node.prems obtain c0' w0 c1' w1 where
    r0: "compress_recursive_ann E c0 (fst (work_split w (dims c0))) = Some (c0', w0)"
    and r1: "compress_recursive_ann E c1 (snd (work_split w (dims c0))) = Some (c1', w1)"
    by (auto split: option.splits)
  from Node.prems(1) have u: "\<forall>d \<in> set (nodes c0). is_untouched d"
      "\<forall>d \<in> set (nodes c1). is_untouched d" "is_untouched d" by auto
  from Node.prems(2) have sq: "square_partition c0" "square_partition c1"
    and rs: "rows d = rows (node c0) + rows (node c1)" "cols d = cols (node c0) + cols (node c1)"
    by auto
  have lv: "0 \<le> w_lvl (fst (work_split w (dims c0)))" "w_lvl (fst (work_split w (dims c0))) \<noteq> 0"
      "0 \<le> w_lvl (snd (work_split w (dims c0)))" "w_lvl (snd (work_split w (dims c0))) \<noteq> 0"
    using Node.prems(4) by (simp_all add: work_split_def new_work_def)
  from Node.IH(1)[OF u(1) sq(1) r0 lv(1)] lv(2) have a0: "shapes_fit c0'" "gen_ok c0'" by auto
  from Node.IH(2)[OF u(2) sq(2) r1 lv(3)] lv(4) have a1: "shapes_fit c1'" "gen_ok c1'" by auto
  note cp = compress_recursive_ann_compressed[OF r0] compress_recursive_ann_compressed[OF r1]
  note dm = compress_recursive_ann_dims[OF r0] compress_recursive_ann_dims[OF r1]
  let ?d1 = "d\<lparr>hss_B01 := e_Aelem E (w_Ir w0) (w_Ic w1)
                                     (DenseM (U_rank (node c0')) (V_rank (node c1'))),
                 hss_B10 := e_Aelem E (w_Ir w1) (w_Ic w0)
                                     (DenseM (U_rank (node c1')) (V_rank (node c0')))\<rparr>"
  from Node.prems(3) cp u(3) obtain d2 where
    t: "compress_tail E ?d1 w (Some (w0, w1)) = Some (d2, w')" and t': "t' = Node d2 c0' c1'"
    by (auto simp: r0 r1 Let_def split: option.splits)
  from compress_tail_keeps[OF t] have k: "rows d2 = rows d" "cols d2 = cols d"
      "hss_B01 d2 = hss_B01 ?d1" "hss_B10 d2 = hss_B10 ?d1" by auto
  have "shapes_fit t'"
    using k a0 a1 rs dm assms(1) by (simp add: t' gen_ok_def)
  moreover have "gen_ok t'" by (simp add: gen_ok_def t')
  ultimately show ?case by simp
qed


lemmas ex_defs = example_env_def example_tree_def HSSMatrixBase_def new_work_def work_split_def
  dims_def compress_tail_def compute_U_V_bases_ann_def compute_local_samples_ann_def
  compress_tail_v2_def compute_U_V_bases_ann_v2_def compute_local_samples_ann_v2_def
  fill_from_child_def update_w_S_def transpose_def
  sample_rows_def candidate_ids_def selected_rows_def selected_cols_def
  is_untouched_def is_compressed_def elem_oracle_def size_t_of_int_def Let_def DenseM_def
  compress_ann_def


theorem compress_states_monotone_witness:
  "(\<exists>t w. compress_recursive_ann example_env example_tree new_work = Some (t, w)
       \<and> states_advance example_tree t
       \<and> map U_state (nodes t) = [COMPRESSED, COMPRESSED, COMPRESSED])
   \<and> (\<exists>t w. compress_recursive_ann_v2 example_env example_tree new_work = Some (t, w)
       \<and> states_advance example_tree t
       \<and> map V_state (nodes t) = [COMPRESSED, COMPRESSED, COMPRESSED])"
proof -
  obtain t w where r: "compress_recursive_ann example_env example_tree new_work = Some (t, w)"
    and s: "map U_state (nodes t) = [COMPRESSED, COMPRESSED, COMPRESSED]"
    by (simp add: ex_defs upt_2)
  obtain t2 w2 where r2: "compress_recursive_ann_v2 example_env example_tree new_work = Some (t2, w2)"
    and s2: "map V_state (nodes t2) = [COMPRESSED, COMPRESSED, COMPRESSED]"
    by (simp add: ex_defs upt_2)
  from compress_states_monotone[of example_env example_tree new_work] r r2
  have "states_advance example_tree t" "states_advance example_tree t2" by auto
  with r s r2 s2 show ?thesis by auto
qed


text \<open>
  C3. For an HSS matrix produced by the ANN compression of an untouched tree through the
  element callback of a matrix \<open>A\<close>, every leaf's \<open>D\<close> is exactly the block of \<open>A\<close> on
  the leaf's row and column range; the shapes of the result fit when the interpolative
  decomposition meets its contract on a square partition; and \<^verbatim>\<open>dense()\<close> of a matrix
  whose shapes fit is the block form \<open>[[D00, U0 B01 V1\<^sup>t], [U1 B10 V0\<^sup>t, D11]]\<close>, recursively,
  with the off-diagonal blocks the products of the children's aggregated generators
  and the coupling blocks.
\<close>

theorem hss_structure:
  assumes "e_Aelem E = elem_oracle A" and "\<forall>d \<in> set (nodes t). is_untouched d"
    and "compress_ann E t = Some t'"
  shows "(\<forall>x \<in> set (leaves_at t' (0, 0)). leaf_is_block A x)
       \<and> (ID_row_contract E \<and> square_partition t \<longrightarrow> shapes_fit t')
       \<and> (shapes_fit t' \<longrightarrow>
            (\<forall>i < rows (node t'). \<forall>j < cols (node t').
               entry (dense t' junk) i j = block_form t' i j))"
proof -
  from assms(3) obtain w' where r: "compress_recursive_ann E t new_work = Some (t', w')"
    by (auto simp: compress_ann_def)
  have "\<forall>x \<in> set (leaves_at t' (w_offset new_work)). leaf_is_block A x"
    by (rule compress_recursive_ann_leaves[OF assms(1,2) r])
  then have a: "\<forall>x \<in> set (leaves_at t' (0, 0)). leaf_is_block A x"
    by (simp add: new_work_def)
  have b: "shapes_fit t'" if "ID_row_contract E" "square_partition t"
    using compress_recursive_ann_shapes[OF assms(1) that(1) assms(2) that(2) r]
    by (simp add: new_work_def)
  have c: "entry (dense t' junk) i j = block_form t' i j"
    if "shapes_fit t'" "i < rows (node t')" "j < cols (node t')" for i j
    using that by (rule dense_block_form)
  show ?thesis using a b c by blast
qed

theorem hss_structure_witness:
  "\<exists>t. compress_ann example_env example_tree = Some t
    \<and> map (\<lambda>d. entry (hss_D d) 0 0) (leaves t) = [5, 5]
    \<and> shapes_fit t
    \<and> entry (dense t (\<lambda>_ _. 99)) 0 0 = 5 \<and> entry (dense t (\<lambda>_ _. 99)) 0 1 = 2
    \<and> entry (dense t (\<lambda>_ _. 99)) 1 0 = 2 \<and> entry (dense t (\<lambda>_ _. 99)) 1 1 = 5
    \<and> block_form t 0 1 = 2"
proof -
  obtain t where t: "compress_ann example_env example_tree = Some t"
    and v: "map (\<lambda>d. entry (hss_D d) 0 0) (leaves t) = [5, 5]"
      "entry (dense t (\<lambda>_ _. 99)) 0 0 = 5" "entry (dense t (\<lambda>_ _. 99)) 0 1 = 2"
      "entry (dense t (\<lambda>_ _. 99)) 1 0 = 2" "entry (dense t (\<lambda>_ _. 99)) 1 1 = 5"
      "rows (node t) = 2" "cols (node t) = 2"
    by (simp add: ex_defs upt_2 dense_def copy_def gemm_def op_entry_def op_cols_def
        write_view_def view_def)
  have o: "e_Aelem example_env = elem_oracle (\<lambda>i j. if i = j then 5 else 2)"
    by (simp add: example_env_def)
  have u: "\<forall>d \<in> set (nodes example_tree). is_untouched d"
    by (simp add: example_tree_def HSSMatrixBase_def is_untouched_def)
  have c: "ID_row_contract example_env"
    by (simp add: ID_row_contract_def example_env_def)
  have s: "square_partition example_tree"
    by (simp add: example_tree_def HSSMatrixBase_def)
  from hss_structure[OF o u t, of "\<lambda>_ _. 99"] c s
  have "shapes_fit t" and "entry (dense t (\<lambda>_ _. 99)) 0 1 = block_form t 0 1"
    using v(6,7) by auto
  with t v show ?thesis by auto
qed






section \<open>The accuracy of the compression\<close>

lemma dense_dims:
  assumes "shapes_fit t"
  shows "nrows (dense t junk) = rows (node t)" and "ncols (dense t junk) = cols (node t)"
proof -
  obtain A' U' V' where r: "dense_recursive t (0, 0) True
        \<lparr>nrows = rows (node t), ncols = cols (node t), entry = junk\<rparr> = (A', U', V')"
    by (metis prod_cases3)
  from dense_recursive_frame[OF assms r]
  show "nrows (dense t junk) = rows (node t)" and "ncols (dense t junk) = cols (node t)"
    by (simp_all add: dense_def r)
qed

lemma block_form_leaf:
  assumes "shapes_fit t" and "(d, o1, o2) \<in> set (leaves_at t (p, q))"
    and "i < rows d" and "j < cols d"
  shows "p \<le> o1 \<and> q \<le> o2 \<and> o1 + i < p + rows (node t) \<and> o2 + j < q + cols (node t)
       \<and> block_form t (o1 + i - p) (o2 + j - q) = entry (hss_D d) i j"
  using assms(1,2)
proof (induction t arbitrary: p q)
  case (Leaf d')
  then show ?case using assms(3,4) by simp
next
  case (Node d' c0 c1)
  from Node.prems(1) have s0: "shapes_fit c0" and s1: "shapes_fit c1"
    and r: "rows d' = rows (node c0) + rows (node c1)"
    and c: "cols d' = cols (node c0) + cols (node c1)"
    by simp_all
  from Node.prems(2) consider
      (a) "(d, o1, o2) \<in> set (leaves_at c0 (p, q))"
    | (b) "(d, o1, o2) \<in> set (leaves_at c1 (p + rows (node c0), q + cols (node c0)))"
    by (auto simp: dims_def)
  then show ?case
  proof cases
    case a
    from Node.IH(1)[OF s0 a] show ?thesis using r c by auto
  next
    case b
    from Node.IH(2)[OF s1 b]
    have h: "p + rows (node c0) \<le> o1" "q + cols (node c0) \<le> o2"
      "o1 + i < p + rows (node c0) + rows (node c1)"
      "o2 + j < q + cols (node c0) + cols (node c1)"
      "block_form c1 (o1 + i - (p + rows (node c0))) (o2 + j - (q + cols (node c0)))
         = entry (hss_D d) i j"
      by simp_all
    have "o1 + i - p - rows (node c0) = o1 + i - (p + rows (node c0))"
      "o2 + j - q - cols (node c0) = o2 + j - (q + cols (node c0))"
      by simp_all
    with h show ?thesis using r c by auto
  qed
qed

text \<open>
  C8, as amended. For the HSS matrix that the ANN compression makes of an untouched
  square partition through the element callback of a matrix \<open>A\<close>, with an
  interpolative decomposition that meets its contract, the dense reconstruction equals
  \<open>A\<close> on the diagonal block of every leaf, whatever the tolerances: the difference
  between \<^verbatim>\<open>dense()\<close> and \<open>A\<close> lies in the off-diagonal blocks alone.
\<close>

theorem compress_dense_leaf_blocks:
  assumes "e_Aelem E = elem_oracle A" and "\<forall>d \<in> set (nodes t). is_untouched d"
    and "ID_row_contract E" and "square_partition t"
    and "compress_ann E t = Some t'"
  shows "\<forall>x \<in> set (leaves_at t' (0, 0)).
           case x of (d, o1, o2) \<Rightarrow>
             \<forall>i < rows d. \<forall>j < cols d.
               entry (dense t' junk) (o1 + i) (o2 + j) = A (o1 + i) (o2 + j)"
proof (intro ballI)
  fix x assume x: "x \<in> set (leaves_at t' (0, 0))"
  obtain d o1 o2 where xd: "x = (d, o1, o2)" by (cases x)
  from assms(5) obtain w' where r: "compress_recursive_ann E t new_work = Some (t', w')"
    by (auto simp: compress_ann_def)
  have "\<forall>x \<in> set (leaves_at t' (w_offset new_work)). leaf_is_block A x"
    by (rule compress_recursive_ann_leaves[OF assms(1,2) r])
  with x xd have lb: "\<forall>i < rows d. \<forall>j < cols d. entry (hss_D d) i j = A (o1 + i) (o2 + j)"
    by (auto simp: new_work_def leaf_is_block_def)
  have sf: "shapes_fit t'"
    using compress_recursive_ann_shapes[OF assms(1,3,2,4) r] by (simp add: new_work_def)
  have "entry (dense t' junk) (o1 + i) (o2 + j) = A (o1 + i) (o2 + j)"
    if ij: "i < rows d" "j < cols d" for i j
  proof -
    from block_form_leaf[OF sf x[unfolded xd] ij]
    have b: "o1 + i < rows (node t')" "o2 + j < cols (node t')"
      "block_form t' (o1 + i) (o2 + j) = entry (hss_D d) i j"
      by simp_all
    from dense_block_form[OF sf b(1,2), of junk] b(3) lb ij show ?thesis by simp
  qed
  then show "case x of (d, o1, o2) \<Rightarrow>
             \<forall>i < rows d. \<forall>j < cols d.
               entry (dense t' junk) (o1 + i) (o2 + j) = A (o1 + i) (o2 + j)"
    by (simp add: xd)
qed

theorem compress_dense_leaf_blocks_witness:
  "\<exists>t. compress_ann example_env example_tree = Some t
     \<and> e_Aelem example_env = elem_oracle (\<lambda>i j. if i = j then 5 else 2)
     \<and> list_all is_untouched (nodes example_tree)
     \<and> ID_row_contract example_env \<and> square_partition example_tree
     \<and> map (\<lambda>(d, o1, o2). (rows d, cols d, o1, o2)) (leaves_at t (0, 0))
         = [(1, 1, 0, 0), (1, 1, 1, 1)]
     \<and> entry (dense t (\<lambda>_ _. 99)) 0 0 = 5 \<and> entry (dense t (\<lambda>_ _. 99)) 1 1 = 5"
proof -
  obtain t where t: "compress_ann example_env example_tree = Some t"
    and s: "\<exists>dR d0 d1. t = Node dR (Leaf d0) (Leaf d1)
               \<and> rows d0 = 1 \<and> cols d0 = 1 \<and> rows d1 = 1 \<and> cols d1 = 1"
    by (simp add: ex_defs upt_2)
  from s obtain dR d0 d1 where n: "t = Node dR (Leaf d0) (Leaf d1)"
    and r: "rows d0 = 1" "cols d0 = 1" "rows d1 = 1" "cols d1 = 1"
    by blast
  have l: "leaves_at t (0, 0) = [(d0, 0, 0), (d1, 1, 1)]"
    by (simp add: n dims_def r)
  have o: "e_Aelem example_env = elem_oracle (\<lambda>i j. if i = j then 5 else 2)"
    by (simp add: example_env_def)
  have u: "\<forall>d \<in> set (nodes example_tree). is_untouched d"
    by (simp add: example_tree_def HSSMatrixBase_def is_untouched_def)
  have c: "ID_row_contract example_env"
    by (simp add: ID_row_contract_def example_env_def)
  have q: "square_partition example_tree"
    by (simp add: example_tree_def HSSMatrixBase_def)
  from compress_dense_leaf_blocks[OF o u c q t, of "\<lambda>_ _. 99"]
  have "entry (dense t (\<lambda>_ _. 99)) 0 0 = 5" "entry (dense t (\<lambda>_ _. 99)) 1 1 = 5"
    by (simp_all add: l r)
  with t o u c q l r show ?thesis by (simp add: list_all_iff)
qed

subsection \<open>The run on six points\<close>

lemma six_tree_ctor: "HSSMatrix_ctor 6 6 (e_opts six_env) = Some six_tree"
proof -
  have l: "size_t_of_int (leaf_size (e_opts six_env)) = 3"
    by (simp add: six_env_def size_t_of_int_def)
  have "HSSMatrix_ctor 3 3 (e_opts six_env) = Some (Leaf (HSSMatrixBase 3 3))"
    by (subst HSSMatrix_ctor.simps) (simp add: l)
  then show ?thesis
    by (subst HSSMatrix_ctor.simps) (simp add: l six_tree_def)
qed

lemmas six_defs = six_env_def six_tree_def six_A_def HSSMatrixBase_def new_work_def work_split_def
  dims_def compress_tail_def compute_U_V_bases_ann_def compute_local_samples_ann_def
  sample_rows_def candidate_ids_def selected_rows_def selected_cols_def
  is_untouched_def is_compressed_def elem_oracle_def size_t_of_int_def Let_def DenseM_def
  compress_ann_def

lemma upt_6: "[0 ..< 3] = [0, 1, 2]" "[3 ..< 6] = [3, 4, 5]" "[0 ..< 4] = [0, 1, 2, 3]"
  "[0 ..< 6] = [0, 1, 2, 3, 4, 5]"
  by (simp_all add: upt_rec)

lemma six_leaf0:
  "\<exists>d0 w0. compress_recursive_ann six_env (Leaf (HSSMatrixBase 3 3))
              (fst (work_split new_work (dims (Leaf (HSSMatrixBase 3 3))))) = Some (Leaf d0, w0)
     \<and> rows d0 = 3 \<and> cols d0 = 3 \<and> is_compressed d0 \<and> U_rank d0 = 1 \<and> V_rank d0 = 1
     \<and> nrows (hss_U d0) = 3 \<and> ncols (hss_U d0) = 1 \<and> nrows (hss_V d0) = 3 \<and> ncols (hss_V d0) = 1
     \<and> nrows (hss_D d0) = 3 \<and> ncols (hss_D d0) = 3
     \<and> map (\<lambda>i. entry (hss_U d0) i 0) [0, 1, 2] = [1, 1, 1]
     \<and> map (\<lambda>i. entry (hss_V d0) i 0) [0, 1, 2] = [1, 1, 1]
     \<and> map (\<lambda>i. map (\<lambda>j. entry (hss_D d0) i j) [0, 1, 2]) [0, 1, 2]
         = [[5, 3, 3], [3, 5, 3], [3, 3, 5]]
     \<and> w_Ir w0 = [0] \<and> w_Ic w0 = [0] \<and> w_Jr w0 = [0]
     \<and> map fst (w_ids_scores w0) = [3, 4] \<and> nrows (w_S w0) = 3 \<and> ncols (w_S w0) = 2
     \<and> map (\<lambda>i. map (\<lambda>j. entry (w_S w0) i j) [0, 1]) [0, 1, 2] = [[2, 2], [2, 2], [2, 2]]"
  by (simp add: six_defs upt_6 upt_2)

lemma six_leaf1:
  "\<exists>d1 w1. compress_recursive_ann six_env (Leaf (HSSMatrixBase 3 3))
              (snd (work_split new_work (dims (Leaf (HSSMatrixBase 3 3))))) = Some (Leaf d1, w1)
     \<and> rows d1 = 3 \<and> cols d1 = 3 \<and> is_compressed d1 \<and> U_rank d1 = 1 \<and> V_rank d1 = 1
     \<and> nrows (hss_U d1) = 3 \<and> ncols (hss_U d1) = 1 \<and> nrows (hss_V d1) = 3 \<and> ncols (hss_V d1) = 1
     \<and> nrows (hss_D d1) = 3 \<and> ncols (hss_D d1) = 3
     \<and> map (\<lambda>i. entry (hss_U d1) i 0) [0, 1, 2] = [1, 1, 1 / 2]
     \<and> map (\<lambda>i. entry (hss_V d1) i 0) [0, 1, 2] = [1, 1, 1 / 2]
     \<and> map (\<lambda>i. map (\<lambda>j. entry (hss_D d1) i j) [0, 1, 2]) [0, 1, 2]
         = [[5, 3, 3], [3, 5, 3], [3, 3, 5]]
     \<and> w_Ir w1 = [3] \<and> w_Ic w1 = [3] \<and> w_Jr w1 = [0]
     \<and> map fst (w_ids_scores w1) = [0, 1] \<and> nrows (w_S w1) = 3 \<and> ncols (w_S w1) = 2
     \<and> map (\<lambda>i. map (\<lambda>j. entry (w_S w1) i j) [0, 1]) [0, 1, 2] = [[2, 2], [2, 2], [1, 1]]"
  by (simp add: six_defs upt_6 upt_2)

text \<open>
  On both leaves the interpolative decomposition is exact on the sample block: the
  basis times the selected rows of the samples gives the samples back.
\<close>

lemma six_ID_exact:
  "\<exists>d0 w0 d1 w1.
      compress_recursive_ann six_env (Leaf (HSSMatrixBase 3 3))
          (fst (work_split new_work (dims (Leaf (HSSMatrixBase 3 3))))) = Some (Leaf d0, w0)
    \<and> compress_recursive_ann six_env (Leaf (HSSMatrixBase 3 3))
          (snd (work_split new_work (dims (Leaf (HSSMatrixBase 3 3))))) = Some (Leaf d1, w1)
    \<and> ncols (hss_U d0) = length (w_Jr w0) \<and> ncols (hss_U d1) = length (w_Jr w1)
    \<and> nrows (w_S w0) = 3 \<and> ncols (w_S w0) = 2 \<and> nrows (w_S w1) = 3 \<and> ncols (w_S w1) = 2
    \<and> map (\<lambda>i. map (\<lambda>j. (\<Sum>k < ncols (hss_U d0). entry (hss_U d0) i k * entry (w_S w0) (w_Jr w0 ! k) j)
                         - entry (w_S w0) i j) [0, 1]) [0, 1, 2] = [[0, 0], [0, 0], [0, 0]]
    \<and> map (\<lambda>i. map (\<lambda>j. (\<Sum>k < ncols (hss_U d1). entry (hss_U d1) i k * entry (w_S w1) (w_Jr w1 ! k) j)
                         - entry (w_S w1) i j) [0, 1]) [0, 1, 2] = [[0, 0], [0, 0], [0, 0]]"
proof -
  from six_leaf0 obtain d0 w0 where
    r0: "compress_recursive_ann six_env (Leaf (HSSMatrixBase 3 3))
              (fst (work_split new_work (dims (Leaf (HSSMatrixBase 3 3))))) = Some (Leaf d0, w0)"
    and f0: "ncols (hss_U d0) = 1" "map (\<lambda>i. entry (hss_U d0) i 0) [0, 1, 2] = [1, 1, 1]"
      "w_Jr w0 = [0]" "nrows (w_S w0) = 3" "ncols (w_S w0) = 2"
      "map (\<lambda>i. map (\<lambda>j. entry (w_S w0) i j) [0, 1]) [0, 1, 2] = [[2, 2], [2, 2], [2, 2]]"
    by auto
  from six_leaf1 obtain d1 w1 where
    r1: "compress_recursive_ann six_env (Leaf (HSSMatrixBase 3 3))
              (snd (work_split new_work (dims (Leaf (HSSMatrixBase 3 3))))) = Some (Leaf d1, w1)"
    and f1: "ncols (hss_U d1) = 1" "map (\<lambda>i. entry (hss_U d1) i 0) [0, 1, 2] = [1, 1, 1 / 2]"
      "w_Jr w1 = [0]" "nrows (w_S w1) = 3" "ncols (w_S w1) = 2"
      "map (\<lambda>i. map (\<lambda>j. entry (w_S w1) i j) [0, 1]) [0, 1, 2] = [[2, 2], [2, 2], [1, 1]]"
    by auto
  have h: "ncols (hss_U d0) = length (w_Jr w0) \<and> ncols (hss_U d1) = length (w_Jr w1)
    \<and> nrows (w_S w0) = 3 \<and> ncols (w_S w0) = 2 \<and> nrows (w_S w1) = 3 \<and> ncols (w_S w1) = 2
    \<and> map (\<lambda>i. map (\<lambda>j. (\<Sum>k < ncols (hss_U d0). entry (hss_U d0) i k * entry (w_S w0) (w_Jr w0 ! k) j)
                         - entry (w_S w0) i j) [0, 1]) [0, 1, 2] = [[0, 0], [0, 0], [0, 0]]
    \<and> map (\<lambda>i. map (\<lambda>j. (\<Sum>k < ncols (hss_U d1). entry (hss_U d1) i k * entry (w_S w1) (w_Jr w1 ! k) j)
                         - entry (w_S w1) i j) [0, 1]) [0, 1, 2] = [[0, 0], [0, 0], [0, 0]]"
    using f0 f1 by simp
  show ?thesis
    by (rule exI[of _ d0], rule exI[of _ w0], rule exI[of _ d1], rule exI[of _ w1],
        rule conjI[OF r0], rule conjI[OF r1], rule h)
qed

lemma six_run:
  "\<exists>t. compress_ann six_env six_tree = Some t
     \<and> is_compressed (node t) \<and> rows (node t) = 6 \<and> cols (node t) = 6 \<and> shapes_fit t
     \<and> map (\<lambda>i. map (\<lambda>j. block_form t i j) [0, 1, 2, 3, 4, 5]) [0, 1, 2, 3, 4, 5]
         = [[5, 3, 3, 2, 2, 1], [3, 5, 3, 2, 2, 1], [3, 3, 5, 2, 2, 1],
            [2, 2, 2, 5, 3, 3], [2, 2, 2, 3, 5, 3], [1, 1, 1, 3, 3, 5]]"
proof -
  from six_leaf0 obtain d0 w0 where
    r0: "compress_recursive_ann six_env (Leaf (HSSMatrixBase 3 3))
              (fst (work_split new_work (dims (Leaf (HSSMatrixBase 3 3))))) = Some (Leaf d0, w0)"
    and f0: "rows d0 = 3" "cols d0 = 3" "is_compressed d0" "U_rank d0 = 1" "V_rank d0 = 1"
      "nrows (hss_U d0) = 3" "ncols (hss_U d0) = 1" "nrows (hss_V d0) = 3" "ncols (hss_V d0) = 1"
      "nrows (hss_D d0) = 3" "ncols (hss_D d0) = 3"
      "map (\<lambda>i. entry (hss_U d0) i 0) [0, 1, 2] = [1, 1, 1]"
      "map (\<lambda>i. entry (hss_V d0) i 0) [0, 1, 2] = [1, 1, 1]"
      "map (\<lambda>i. map (\<lambda>j. entry (hss_D d0) i j) [0, 1, 2]) [0, 1, 2]
         = [[5, 3, 3], [3, 5, 3], [3, 3, 5]]"
      "w_Ir w0 = [0]" "w_Ic w0 = [0]"
    by auto
  from six_leaf1 obtain d1 w1 where
    r1: "compress_recursive_ann six_env (Leaf (HSSMatrixBase 3 3))
              (snd (work_split new_work (dims (Leaf (HSSMatrixBase 3 3))))) = Some (Leaf d1, w1)"
    and f1: "rows d1 = 3" "cols d1 = 3" "is_compressed d1" "U_rank d1 = 1" "V_rank d1 = 1"
      "nrows (hss_U d1) = 3" "ncols (hss_U d1) = 1" "nrows (hss_V d1) = 3" "ncols (hss_V d1) = 1"
      "nrows (hss_D d1) = 3" "ncols (hss_D d1) = 3"
      "map (\<lambda>i. entry (hss_U d1) i 0) [0, 1, 2] = [1, 1, 1 / 2]"
      "map (\<lambda>i. entry (hss_V d1) i 0) [0, 1, 2] = [1, 1, 1 / 2]"
      "map (\<lambda>i. map (\<lambda>j. entry (hss_D d1) i j) [0, 1, 2]) [0, 1, 2]
         = [[5, 3, 3], [3, 5, 3], [3, 3, 5]]"
      "w_Ir w1 = [3]" "w_Ic w1 = [3]"
    by auto
  define dR where "dR = (HSSMatrixBase 6 6)\<lparr>
      hss_B01 := e_Aelem six_env (w_Ir w0) (w_Ic w1) (DenseM (U_rank d0) (V_rank d1)),
      hss_B10 := e_Aelem six_env (w_Ir w1) (w_Ic w0) (DenseM (U_rank d1) (V_rank d0)),
      U_state := COMPRESSED, V_state := COMPRESSED\<rparr>"
  have "compress_recursive_ann six_env six_tree new_work
      = (case compress_recursive_ann six_env (Leaf (HSSMatrixBase 3 3))
              (fst (work_split new_work (dims (Leaf (HSSMatrixBase 3 3))))) of
        None \<Rightarrow> None
      | Some (c0', w0) \<Rightarrow>
          (case compress_recursive_ann six_env (Leaf (HSSMatrixBase 3 3))
              (snd (work_split new_work (dims (Leaf (HSSMatrixBase 3 3))))) of
             None \<Rightarrow> None
           | Some (c1', w1) \<Rightarrow>
               if \<not> is_compressed (node c0') \<or> \<not> is_compressed (node c1')
               then Some (Node (HSSMatrixBase 6 6) c0' c1', new_work)
               else
                 let d1 = (if is_untouched (HSSMatrixBase 6 6)
                           then (HSSMatrixBase 6 6)\<lparr>hss_B01 := e_Aelem six_env (w_Ir w0) (w_Ic w1)
                                     (DenseM (U_rank (node c0')) (V_rank (node c1'))),
                                  hss_B10 := e_Aelem six_env (w_Ir w1) (w_Ic w0)
                                     (DenseM (U_rank (node c1')) (V_rank (node c0')))\<rparr>
                           else HSSMatrixBase 6 6)
                 in case compress_tail six_env d1 new_work (Some (w0, w1)) of
                      None \<Rightarrow> None
                    | Some (d2, w2) \<Rightarrow> Some (Node d2 c0' c1', w2)))"
    unfolding six_tree_def by (rule compress_recursive_ann.simps(2))
  also have "\<dots> = Some (Node dR (Leaf d0) (Leaf d1), new_work)"
    unfolding r0 r1 using f0(3) f1(3)
    by (simp add: dR_def compress_tail_def new_work_def is_untouched_def HSSMatrixBase_def)
  finally have t: "compress_ann six_env six_tree = Some (Node dR (Leaf d0) (Leaf d1))"
    by (simp add: compress_ann_def)
  have dRf: "rows dR = 6" "cols dR = 6" "is_compressed dR"
    "nrows (hss_B01 dR) = 1" "ncols (hss_B01 dR) = 1" "nrows (hss_B10 dR) = 1" "ncols (hss_B10 dR) = 1"
    "entry (hss_B01 dR) 0 0 = 2" "entry (hss_B10 dR) 0 0 = 2"
    using f0 f1
    by (simp_all add: dR_def HSSMatrixBase_def is_compressed_def six_env_def elem_oracle_def
        DenseM_def six_A_def)
  have sf: "shapes_fit (Node dR (Leaf d0) (Leaf d1))"
    using f0 f1 dRf by simp
  have bf: "map (\<lambda>i. map (\<lambda>j. block_form (Node dR (Leaf d0) (Leaf d1)) i j) [0, 1, 2, 3, 4, 5])
              [0, 1, 2, 3, 4, 5]
         = [[5, 3, 3, 2, 2, 1], [3, 5, 3, 2, 2, 1], [3, 3, 5, 2, 2, 1],
            [2, 2, 2, 5, 3, 3], [2, 2, 2, 3, 5, 3], [1, 1, 1, 3, 3, 5]]"
    using f0 f1 dRf by (simp add: UBVt_def)
  show ?thesis using t dRf(1-3) sf bf by simp
qed

lemmas six_defs_v2 = six_env_def six_tree_def six_A_def HSSMatrixBase_def new_work_def work_split_def
  dims_def compress_tail_v2_def compute_U_V_bases_ann_v2_def compute_local_samples_ann_v2_def
  sample_rows_def candidate_ids_def selected_rows_def selected_cols_def
  is_untouched_def is_compressed_def elem_oracle_def size_t_of_int_def Let_def DenseM_def

lemma six_leaf0_v2:
  "\<exists>d0 w0. compress_recursive_ann_v2 six_env (Leaf (HSSMatrixBase 3 3))
              (fst (work_split new_work (dims (Leaf (HSSMatrixBase 3 3))))) = Some (Leaf d0, w0)
     \<and> rows d0 = 3 \<and> cols d0 = 3 \<and> is_compressed d0 \<and> U_rank d0 = 1 \<and> V_rank d0 = 1
     \<and> nrows (hss_U d0) = 3 \<and> ncols (hss_U d0) = 1 \<and> nrows (hss_V d0) = 3 \<and> ncols (hss_V d0) = 1
     \<and> nrows (hss_D d0) = 3 \<and> ncols (hss_D d0) = 3
     \<and> map (\<lambda>i. entry (hss_U d0) i 0) [0, 1, 2] = [1, 1, 1]
     \<and> map (\<lambda>i. entry (hss_V d0) i 0) [0, 1, 2] = [1, 1, 1]
     \<and> map (\<lambda>i. map (\<lambda>j. entry (hss_D d0) i j) [0, 1, 2]) [0, 1, 2]
         = [[5, 3, 3], [3, 5, 3], [3, 3, 5]]
     \<and> w_Ir w0 = [0] \<and> w_Ic w0 = [0]"
  by (simp add: six_defs_v2 upt_6 upt_2)

lemma six_leaf1_v2:
  "\<exists>d1 w1. compress_recursive_ann_v2 six_env (Leaf (HSSMatrixBase 3 3))
              (snd (work_split new_work (dims (Leaf (HSSMatrixBase 3 3))))) = Some (Leaf d1, w1)
     \<and> rows d1 = 3 \<and> cols d1 = 3 \<and> is_compressed d1 \<and> U_rank d1 = 1 \<and> V_rank d1 = 1
     \<and> nrows (hss_U d1) = 3 \<and> ncols (hss_U d1) = 1 \<and> nrows (hss_V d1) = 3 \<and> ncols (hss_V d1) = 1
     \<and> nrows (hss_D d1) = 3 \<and> ncols (hss_D d1) = 3
     \<and> map (\<lambda>i. entry (hss_U d1) i 0) [0, 1, 2] = [1, 1, 1 / 2]
     \<and> map (\<lambda>i. entry (hss_V d1) i 0) [0, 1, 2] = [1, 1, 1 / 2]
     \<and> map (\<lambda>i. map (\<lambda>j. entry (hss_D d1) i j) [0, 1, 2]) [0, 1, 2]
         = [[5, 3, 3], [3, 5, 3], [3, 3, 5]]
     \<and> w_Ir w1 = [3] \<and> w_Ic w1 = [3]"
  by (simp add: six_defs_v2 upt_6 upt_2)

lemma six_run_v2:
  "\<exists>t w. compress_recursive_ann_v2 six_env six_tree new_work = Some (t, w)
     \<and> is_compressed (node t) \<and> rows (node t) = 6 \<and> cols (node t) = 6 \<and> shapes_fit t
     \<and> map (\<lambda>i. map (\<lambda>j. block_form t i j) [0, 1, 2, 3, 4, 5]) [0, 1, 2, 3, 4, 5]
         = [[5, 3, 3, 2, 2, 1], [3, 5, 3, 2, 2, 1], [3, 3, 5, 2, 2, 1],
            [2, 2, 2, 5, 3, 3], [2, 2, 2, 3, 5, 3], [1, 1, 1, 3, 3, 5]]"
proof -
  from six_leaf0_v2 obtain d0 w0 where
    r0: "compress_recursive_ann_v2 six_env (Leaf (HSSMatrixBase 3 3))
              (fst (work_split new_work (dims (Leaf (HSSMatrixBase 3 3))))) = Some (Leaf d0, w0)"
    and f0: "rows d0 = 3" "cols d0 = 3" "is_compressed d0" "U_rank d0 = 1" "V_rank d0 = 1"
      "nrows (hss_U d0) = 3" "ncols (hss_U d0) = 1" "nrows (hss_V d0) = 3" "ncols (hss_V d0) = 1"
      "nrows (hss_D d0) = 3" "ncols (hss_D d0) = 3"
      "map (\<lambda>i. entry (hss_U d0) i 0) [0, 1, 2] = [1, 1, 1]"
      "map (\<lambda>i. entry (hss_V d0) i 0) [0, 1, 2] = [1, 1, 1]"
      "map (\<lambda>i. map (\<lambda>j. entry (hss_D d0) i j) [0, 1, 2]) [0, 1, 2]
         = [[5, 3, 3], [3, 5, 3], [3, 3, 5]]"
      "w_Ir w0 = [0]" "w_Ic w0 = [0]"
    by auto
  from six_leaf1_v2 obtain d1 w1 where
    r1: "compress_recursive_ann_v2 six_env (Leaf (HSSMatrixBase 3 3))
              (snd (work_split new_work (dims (Leaf (HSSMatrixBase 3 3))))) = Some (Leaf d1, w1)"
    and f1: "rows d1 = 3" "cols d1 = 3" "is_compressed d1" "U_rank d1 = 1" "V_rank d1 = 1"
      "nrows (hss_U d1) = 3" "ncols (hss_U d1) = 1" "nrows (hss_V d1) = 3" "ncols (hss_V d1) = 1"
      "nrows (hss_D d1) = 3" "ncols (hss_D d1) = 3"
      "map (\<lambda>i. entry (hss_U d1) i 0) [0, 1, 2] = [1, 1, 1 / 2]"
      "map (\<lambda>i. entry (hss_V d1) i 0) [0, 1, 2] = [1, 1, 1 / 2]"
      "map (\<lambda>i. map (\<lambda>j. entry (hss_D d1) i j) [0, 1, 2]) [0, 1, 2]
         = [[5, 3, 3], [3, 5, 3], [3, 3, 5]]"
      "w_Ir w1 = [3]" "w_Ic w1 = [3]"
    by auto
  define dR where "dR = (HSSMatrixBase 6 6)\<lparr>
      hss_B01 := e_Aelem six_env (w_Ir w0) (w_Ic w1) (DenseM (U_rank d0) (V_rank d1)),
      hss_B10 := transpose (e_Aelem six_env (w_Ir w0) (w_Ic w1) (DenseM (U_rank d0) (V_rank d1))),
      U_state := COMPRESSED, V_state := COMPRESSED\<rparr>"
  have "compress_recursive_ann_v2 six_env six_tree new_work
      = (case compress_recursive_ann_v2 six_env (Leaf (HSSMatrixBase 3 3))
              (fst (work_split new_work (dims (Leaf (HSSMatrixBase 3 3))))) of
        None \<Rightarrow> None
      | Some (c0', w0) \<Rightarrow>
          (case compress_recursive_ann_v2 six_env (Leaf (HSSMatrixBase 3 3))
              (snd (work_split new_work (dims (Leaf (HSSMatrixBase 3 3))))) of
             None \<Rightarrow> None
           | Some (c1', w1) \<Rightarrow>
               if \<not> is_compressed (node c0') \<or> \<not> is_compressed (node c1')
               then Some (Node (HSSMatrixBase 6 6) c0' c1', new_work)
               else
                 let B = e_Aelem six_env (w_Ir w0) (w_Ic w1)
                           (DenseM (U_rank (node c0')) (V_rank (node c1')));
                     d1 = (HSSMatrixBase 6 6)\<lparr>hss_B01 := B, hss_B10 := transpose B\<rparr>
                 in case compress_tail_v2 six_env d1 new_work (Some (w0, w1)) of
                      None \<Rightarrow> None
                    | Some (d2, w2) \<Rightarrow> Some (Node d2 c0' c1', w2)))"
    unfolding six_tree_def by (rule compress_recursive_ann_v2.simps(2))
  also have "\<dots> = Some (Node dR (Leaf d0) (Leaf d1), new_work)"
    unfolding r0 r1 using f0(3) f1(3)
    by (simp add: dR_def compress_tail_v2_def new_work_def HSSMatrixBase_def Let_def)
  finally have t: "compress_recursive_ann_v2 six_env six_tree new_work
                     = Some (Node dR (Leaf d0) (Leaf d1), new_work)" .
  have dRf: "rows dR = 6" "cols dR = 6" "is_compressed dR"
    "nrows (hss_B01 dR) = 1" "ncols (hss_B01 dR) = 1" "nrows (hss_B10 dR) = 1" "ncols (hss_B10 dR) = 1"
    "entry (hss_B01 dR) 0 0 = 2" "entry (hss_B10 dR) 0 0 = 2"
    using f0 f1
    by (simp_all add: dR_def HSSMatrixBase_def is_compressed_def six_env_def elem_oracle_def
        DenseM_def six_A_def transpose_def)
  have sf: "shapes_fit (Node dR (Leaf d0) (Leaf d1))"
    using f0 f1 dRf by simp
  have bf: "map (\<lambda>i. map (\<lambda>j. block_form (Node dR (Leaf d0) (Leaf d1)) i j) [0, 1, 2, 3, 4, 5])
              [0, 1, 2, 3, 4, 5]
         = [[5, 3, 3, 2, 2, 1], [3, 5, 3, 2, 2, 1], [3, 3, 5, 2, 2, 1],
            [2, 2, 2, 5, 3, 3], [2, 2, 2, 3, 5, 3], [1, 1, 1, 3, 3, 5]]"
    using f0 f1 dRf by (simp add: UBVt_def)
  show ?thesis using t dRf(1-3) sf bf by simp
qed

lemma sum_lessThan_6: "(\<Sum>i < 6. f i) = f 0 + f 1 + f 2 + f 3 + f 4 + f (5::nat)"
proof -
  have "{..<6::nat} = {0, 1, 2, 3, 4, 5}" by auto
  then show ?thesis by (simp add: add.assoc)
qed

lemma normF_nonneg: "0 \<le> normF M"
  by (simp add: normF_def sum_nonneg)

lemma six_norm: "(normF (Kdense six_A 6))\<^sup>2 = 310"
  by (simp add: normF_def Kdense_def sum_lessThan_6 six_A_def)

lemma six_bound_fails:
  assumes sf: "shapes_fit t" and rc: "rows (node t) = 6" "cols (node t) = 6"
    and bf: "map (\<lambda>i. map (\<lambda>j. block_form t i j) [0, 1, 2, 3, 4, 5]) [0, 1, 2, 3, 4, 5]
         = [[5, 3, 3, 2, 2, 1], [3, 5, 3, 2, 2, 1], [3, 3, 5, 2, 2, 1],
            [2, 2, 2, 5, 3, 3], [2, 2, 2, 3, 5, 3], [1, 1, 1, 3, 3, 5]]"
  shows "(normF (scaled_add (- 1) (Kdense six_A 6) (dense t (\<lambda>_ _. 0))))\<^sup>2 = 2"
    and "\<not> normF (scaled_add (- 1) (Kdense six_A 6) (dense t (\<lambda>_ _. 0)))
            \<le> 1 / 100 * normF (Kdense six_A 6) + 1 / 10 ^ 8"
proof -
  let ?H = "dense t (\<lambda>_ _. 0)"
  let ?e = "normF (scaled_add (- 1) (Kdense six_A 6) ?H)"
  let ?n = "normF (Kdense six_A 6)"
  have D: "entry ?H i j = block_form t i j" if "i < 6" "j < 6" for i j
    using dense_block_form[OF sf, of i j] that rc by simp
  have dd: "nrows ?H = 6" "ncols ?H = 6"
    using dense_dims[OF sf] rc by simp_all
  have S: "(\<Sum>i < 6. \<Sum>j < 6. (entry ?H i j + - 1 * six_A i j)\<^sup>2) = 2"
    using bf by (simp add: sum_lessThan_6 D six_A_def)
  show E: "?e\<^sup>2 = 2"
    using S by (simp add: normF_def scaled_add_def Kdense_def dd)
  show "\<not> ?e \<le> 1 / 100 * ?n + 1 / 10 ^ 8"
  proof
    assume a: "?e \<le> 1 / 100 * ?n + 1 / 10 ^ 8"
    have "?n\<^sup>2 \<le> 18\<^sup>2" by (simp add: six_norm)
    then have "?n \<le> 18" by (rule power2_le_imp_le) simp
    with a have "?e \<le> 1" by simp
    then have "?e\<^sup>2 \<le> 1\<^sup>2" using normF_nonneg[of "scaled_add (- 1) (Kdense six_A 6) ?H"]
      by (intro power_mono) simp_all
    with E show False by simp
  qed
qed

text \<open>
  The claim C8 as it stands fails on the six points, in both revisions of the
  compression: every node is compressed, the accuracy check passes on both leaves (rank
  1 with 2 sample columns and no oversampling), and the reconstruction differs from
  \<open>six_A\<close> at \<open>(2, 5)\<close> and \<open>(5, 2)\<close>, which no sample column covers. The squared
  Frobenius norm of the difference is 2 and that of the matrix 310, so the bound
  \<open>rel_tol * \<parallel>A\<parallel> + abs_tol\<close> with the tolerances \<open>1/100\<close> and \<open>10\<^sup>-\<^sup>8\<close> does not hold.
\<close>

theorem compression_accuracy_counterexample:
  "map_option (\<lambda>t. (is_compressed (node t),
       (normF (scaled_add (- 1) (Kdense six_A 6) (dense t (\<lambda>_ _. 0))))\<^sup>2,
       (normF (Kdense six_A 6))\<^sup>2,
       normF (scaled_add (- 1) (Kdense six_A 6) (dense t (\<lambda>_ _. 0)))
         \<le> rel_tol (e_opts six_env) * normF (Kdense six_A 6) + abs_tol (e_opts six_env)))
     (compress_ann six_env six_tree)
   = Some (True, 2, 310, False)
   \<and> map_option (\<lambda>(t, w). (is_compressed (node t),
       (normF (scaled_add (- 1) (Kdense six_A 6) (dense t (\<lambda>_ _. 0))))\<^sup>2,
       (normF (Kdense six_A 6))\<^sup>2,
       normF (scaled_add (- 1) (Kdense six_A 6) (dense t (\<lambda>_ _. 0)))
         \<le> rel_tol (e_opts six_env) * normF (Kdense six_A 6) + abs_tol (e_opts six_env)))
     (compress_recursive_ann_v2 six_env six_tree new_work)
   = Some (True, 2, 310, False)"
proof -
  from six_run obtain t where t: "compress_ann six_env six_tree = Some t"
    and c: "is_compressed (node t)" and rc: "rows (node t) = 6" "cols (node t) = 6"
    and sf: "shapes_fit t"
    and bf: "map (\<lambda>i. map (\<lambda>j. block_form t i j) [0, 1, 2, 3, 4, 5]) [0, 1, 2, 3, 4, 5]
         = [[5, 3, 3, 2, 2, 1], [3, 5, 3, 2, 2, 1], [3, 3, 5, 2, 2, 1],
            [2, 2, 2, 5, 3, 3], [2, 2, 2, 3, 5, 3], [1, 1, 1, 3, 3, 5]]"
    by auto
  from six_run_v2 obtain t2 w2 where
    t2: "compress_recursive_ann_v2 six_env six_tree new_work = Some (t2, w2)"
    and c2: "is_compressed (node t2)" and rc2: "rows (node t2) = 6" "cols (node t2) = 6"
    and sf2: "shapes_fit t2"
    and bf2: "map (\<lambda>i. map (\<lambda>j. block_form t2 i j) [0, 1, 2, 3, 4, 5]) [0, 1, 2, 3, 4, 5]
         = [[5, 3, 3, 2, 2, 1], [3, 5, 3, 2, 2, 1], [3, 3, 5, 2, 2, 1],
            [2, 2, 2, 5, 3, 3], [2, 2, 2, 3, 5, 3], [1, 1, 1, 3, 3, 5]]"
    by auto
  note a = six_bound_fails[OF sf rc bf]
  note b = six_bound_fails[OF sf2 rc2 bf2]
  from t c a t2 c2 b six_norm show ?thesis by (simp add: six_env_def)
qed

end
